theory Spec2Isabelle
  imports Complex_Main
begin

section \<open>Numbers as numpy sees them\<close>

text \<open>
  The notebook computes with float64 values. A value is a real number or one of
  the three special values of IEEE arithmetic; the sign of zero is not modelled.
  Two layers of arithmetic follow.
  \<^item> The functions \<open>np_add\<close> \<open>\<dots>\<close> \<open>np_median\<close> are numpy's on the samples an experiment
    draws: they follow the IEEE rules for the special values (numpy warns and
    returns the special value, it does not raise) and are exact on numbers, so
    an estimate is the number that the float64 estimate approximates.
  \<^item> \<open>RMSE\<close>, \<open>MeanError\<close> and the clock of a game are float64 arithmetic proper:
    every operation rounds its exact result to the nearest float64, ties to
    even, and a result that rounds beyond the range is an infinity, or an
    \<open>OverflowError\<close> where Python raises one. What these functions return, whether
    two of their results are \<open>==\<close>, and how many goals a comparison with the clock
    counts, is decided on the rounded values.
\<close>

datatype npfloat = Num real | PosInf | NegInf | NaN

datatype error = InvalidInput | OverflowError

fun np_add :: "npfloat \<Rightarrow> npfloat \<Rightarrow> npfloat" where
  "np_add (Num a) (Num b) = Num (a + b)"
| "np_add NaN _ = NaN"
| "np_add _ NaN = NaN"
| "np_add PosInf NegInf = NaN"
| "np_add NegInf PosInf = NaN"
| "np_add PosInf _ = PosInf"
| "np_add _ PosInf = PosInf"
| "np_add NegInf _ = NegInf"
| "np_add _ NegInf = NegInf"

fun np_sub :: "npfloat \<Rightarrow> npfloat \<Rightarrow> npfloat" where
  "np_sub (Num a) (Num b) = Num (a - b)"
| "np_sub NaN _ = NaN"
| "np_sub _ NaN = NaN"
| "np_sub PosInf PosInf = NaN"
| "np_sub NegInf NegInf = NaN"
| "np_sub PosInf _ = PosInf"
| "np_sub _ NegInf = PosInf"
| "np_sub NegInf _ = NegInf"
| "np_sub _ PosInf = NegInf"

text \<open>\<open>x ** 2\<close>\<close>

fun np_pow2 :: "npfloat \<Rightarrow> npfloat" where
  "np_pow2 (Num a) = Num (a ^ 2)"
| "np_pow2 PosInf = PosInf"
| "np_pow2 NegInf = PosInf"
| "np_pow2 NaN = NaN"

text \<open>\<open>x / y\<close> on float64: a zero divisor gives an infinity or NaN.\<close>

fun np_div :: "npfloat \<Rightarrow> npfloat \<Rightarrow> npfloat" where
  "np_div NaN _ = NaN"
| "np_div _ NaN = NaN"
| "np_div (Num a) (Num b) =
     (if b \<noteq> 0 then Num (a / b)
      else if a = 0 then NaN
      else if 0 < a then PosInf else NegInf)"
| "np_div (Num a) _ = Num 0"
| "np_div PosInf (Num b) = (if 0 \<le> b then PosInf else NegInf)"
| "np_div NegInf (Num b) = (if 0 \<le> b then NegInf else PosInf)"
| "np_div _ _ = NaN"

fun np_sqrt :: "npfloat \<Rightarrow> npfloat" where
  "np_sqrt (Num a) = (if a < 0 then NaN else Num (sqrt a))"
| "np_sqrt PosInf = PosInf"
| "np_sqrt NegInf = NaN"
| "np_sqrt NaN = NaN"

text \<open>The comparisons \<open>x >= y\<close> and \<open>x > y\<close>: false whenever NaN is involved.\<close>

fun np_ge :: "npfloat \<Rightarrow> npfloat \<Rightarrow> bool" where
  "np_ge NaN _ = False"
| "np_ge _ NaN = False"
| "np_ge (Num a) (Num b) = (b \<le> a)"
| "np_ge PosInf _ = True"
| "np_ge _ NegInf = True"
| "np_ge _ _ = False"

fun np_gt :: "npfloat \<Rightarrow> npfloat \<Rightarrow> bool" where
  "np_gt NaN _ = False"
| "np_gt _ NaN = False"
| "np_gt (Num a) (Num b) = (b < a)"
| "np_gt PosInf PosInf = False"
| "np_gt PosInf _ = True"
| "np_gt NegInf _ = False"
| "np_gt _ NegInf = True"
| "np_gt _ _ = False"

text \<open>\<open>np.sum\<close>, \<open>np.mean\<close> and \<open>np.var(xs, ddof)\<close> of a one-dimensional sequence.
  The mean of an empty sequence is \<open>0 / 0\<close>; the divisor of the variance is
  \<open>max (n - ddof) 0\<close>.\<close>

primrec np_sum :: "npfloat list \<Rightarrow> npfloat" where
  "np_sum [] = Num 0"
| "np_sum (x # xs) = np_add x (np_sum xs)"

definition np_mean :: "npfloat list \<Rightarrow> npfloat" where
  "np_mean xs = np_div (np_sum xs) (Num (real (length xs)))"

definition np_var :: "nat \<Rightarrow> npfloat list \<Rightarrow> npfloat" where
  "np_var ddof xs =
     (let arrmean = np_mean xs;
          x = map (\<lambda>v. np_pow2 (np_sub v arrmean)) xs
      in np_div (np_sum x) (Num (real (length xs - ddof))))"

section \<open>float64 arithmetic\<close>

text \<open>
  A float64 is zero or \<open>\<plusminus> n * 2\<^sup>j\<close> with \<open>n < 2\<^sup>5\<^sup>3\<close> and \<open>-1074 \<le> j \<le> 971\<close>. Rounding a real
  to the nearest float64 rounds it to a multiple of the spacing of its binade,
  \<open>2\<^sup>e\<^sup>-\<^sup>5\<^sup>2\<close> for \<open>2\<^sup>e \<le> \<bar>x\<bar> < 2\<^sup>e\<^sup>+\<^sup>1\<close> and \<open>2\<^sup>-\<^sup>1\<^sup>0\<^sup>7\<^sup>4\<close> below \<open>2\<^sup>-\<^sup>1\<^sup>0\<^sup>2\<^sup>2\<close>, ties to the even
  multiple. A real that rounds to \<open>2\<^sup>1\<^sup>0\<^sup>2\<^sup>4\<close> or beyond, that is a real of magnitude
  \<open>2\<^sup>1\<^sup>0\<^sup>2\<^sup>4 - 2\<^sup>9\<^sup>7\<^sup>0\<close> or more, becomes an infinity.
\<close>

definition round_half_even :: "real \<Rightarrow> int" where
  "round_half_even x =
     (let f = \<lfloor>x\<rfloor>; r = x - of_int f
      in if r < 1 / 2 then f
         else if 1 / 2 < r then f + 1
         else if even f then f else f + 1)"

definition round64 :: "real \<Rightarrow> real" where
  "round64 x =
     (if x = 0 then 0
      else let e = max \<lfloor>log 2 \<bar>x\<bar>\<rfloor> (- 1022);
               ulp = 2 powi (e - 52)
           in of_int (round_half_even (x / ulp)) * ulp)"

definition overflow_threshold :: real where
  "overflow_threshold = 2 ^ 1024 - 2 ^ 970"

definition overflowed :: "real \<Rightarrow> npfloat" where
  "overflowed r =
     (if overflow_threshold \<le> r then PosInf
      else if r \<le> - overflow_threshold then NegInf
      else Num r)"

fun rounded :: "npfloat \<Rightarrow> npfloat" where
  "rounded (Num r) = overflowed (round64 r)"
| "rounded x = x"

text \<open>\<open>x + y\<close>, \<open>x - y\<close>, \<open>x / y\<close> and \<open>np.sqrt(x)\<close> on float64.\<close>

definition f64_add :: "npfloat \<Rightarrow> npfloat \<Rightarrow> npfloat" where
  "f64_add a b = rounded (np_add a b)"

definition f64_sub :: "npfloat \<Rightarrow> npfloat \<Rightarrow> npfloat" where
  "f64_sub a b = rounded (np_sub a b)"

definition f64_div :: "npfloat \<Rightarrow> npfloat \<Rightarrow> npfloat" where
  "f64_div a b = rounded (np_div a b)"

definition f64_sqrt :: "npfloat \<Rightarrow> npfloat" where
  "f64_sqrt a = rounded (np_sqrt a)"

text \<open>\<open>np.mean\<close> of a list: the elements are added in index order, each partial sum
  rounded, and the sum is divided by the length. (numpy adds an array of fewer
  than eight elements in this order and a longer one in blocks, whose partial
  sums are other ones.)\<close>

fun f64_sum_from :: "npfloat \<Rightarrow> npfloat list \<Rightarrow> npfloat" where
  "f64_sum_from acc [] = acc"
| "f64_sum_from acc (x # xs) = f64_sum_from (f64_add acc x) xs"

definition f64_mean :: "npfloat list \<Rightarrow> npfloat" where
  "f64_mean xs = f64_div (f64_sum_from (Num 0) xs) (Num (real (length xs)))"

text \<open>A real that float64 holds exactly, and the partial sums that \<open>np.mean\<close> rounds
  on the way through a list.\<close>

definition representable :: "real \<Rightarrow> bool" where
  "representable x \<longleftrightarrow> round64 x = x \<and> \<bar>x\<bar> < overflow_threshold"

fun running_sums :: "real \<Rightarrow> real list \<Rightarrow> real list" where
  "running_sums acc [] = []"
| "running_sums acc (x # xs) = (acc + x) # running_sums (acc + x) xs"

text \<open>A rounding in the normal range changes a value by a factor between
  \<open>1 - 2\<^sup>-\<^sup>5\<^sup>3\<close> and \<open>1 + 2\<^sup>-\<^sup>5\<^sup>3\<close>; \<open>roundings n r x\<close> says that \<open>r\<close> is within \<open>n\<close> such factors
  of \<open>x\<close>.\<close>

definition unit_roundoff :: real where
  "unit_roundoff = 1 / 2 ^ 53"

definition roundings :: "nat \<Rightarrow> real \<Rightarrow> real \<Rightarrow> bool" where
  "roundings n r x \<longleftrightarrow>
     x * (1 - unit_roundoff) ^ n \<le> r \<and> r \<le> x * (1 + unit_roundoff) ^ n"

section \<open>Python floats and numpy scalars\<close>

text \<open>
  An element of a sequence handed to \<open>RMSE\<close> is a Python \<open>float\<close> or a numpy
  \<open>float64\<close> scalar (a Python \<open>int\<close> of the size of a goal count is exact as a
  \<open>float\<close>). The two agree on \<open>-\<close>, whose result is a numpy scalar if either operand
  is one. They differ on \<open>**\<close>: where the square of a Python \<open>float\<close> overflows, Python
  raises \<open>OverflowError\<close>; where the square of a numpy scalar overflows, numpy
  returns infinity. A square that does not overflow is the rounded square.
\<close>

datatype pyfloat = PyFloat npfloat | NpFloat64 npfloat

fun py_value :: "pyfloat \<Rightarrow> npfloat" where
  "py_value (PyFloat x) = x"
| "py_value (NpFloat64 x) = x"

fun py_sub :: "pyfloat \<Rightarrow> pyfloat \<Rightarrow> pyfloat" where
  "py_sub (PyFloat a) (PyFloat b) = PyFloat (f64_sub a b)"
| "py_sub a b = NpFloat64 (f64_sub (py_value a) (py_value b))"

fun py_pow2 :: "pyfloat \<Rightarrow> error + pyfloat" where
  "py_pow2 (PyFloat (Num a)) =
     (if overflow_threshold \<le> round64 (a ^ 2) then Inl OverflowError
      else Inr (PyFloat (Num (round64 (a ^ 2)))))"
| "py_pow2 (PyFloat x) = Inr (PyFloat (np_pow2 x))"
| "py_pow2 (NpFloat64 x) = Inr (NpFloat64 (rounded (np_pow2 x)))"

section \<open>Summaries of an estimate set\<close>

text \<open>
  Neither function has a raise or a guard in the source. \<open>MeanError\<close> returns on
  every path. In \<open>RMSE\<close> the list comprehension evaluates \<open>(estimate-actual)**2\<close> for
  each estimate in turn, and the first \<open>**\<close> that raises ends the call.
\<close>

fun squared_errors :: "pyfloat list \<Rightarrow> pyfloat \<Rightarrow> error + pyfloat list" where
  "squared_errors [] actual = Inr []"
| "squared_errors (estimate # estimates) actual =
     (case py_pow2 (py_sub estimate actual) of
        Inl e \<Rightarrow> Inl e
      | Inr s \<Rightarrow>
          (case squared_errors estimates actual of
             Inl e \<Rightarrow> Inl e
           | Inr e2 \<Rightarrow> Inr (s # e2)))"

definition RMSE :: "pyfloat list \<Rightarrow> pyfloat \<Rightarrow> error + npfloat" where
  "RMSE estimates actual =
     (case squared_errors estimates actual of
        Inl e \<Rightarrow> Inl e
      | Inr e2 \<Rightarrow>
          let mse = f64_mean (map py_value e2)
          in Inr (f64_sqrt mse))"

definition MeanError :: "npfloat list \<Rightarrow> npfloat \<Rightarrow> error + npfloat" where
  "MeanError estimates actual =
     (let errors = map (\<lambda>estimate. f64_sub estimate actual) estimates
      in Inr (f64_mean errors))"

text \<open>\<open>d ** 2\<close> raises: \<open>d\<close> is a Python \<open>float\<close> whose square rounds beyond the range.\<close>

fun square_overflows :: "pyfloat \<Rightarrow> bool" where
  "square_overflows (PyFloat (Num d)) = (overflow_threshold \<le> round64 (d ^ 2))"
| "square_overflows x = False"

text \<open>What a function prints when its calls have these outcomes: a raise ends
  the function, so nothing after it is printed.\<close>

fun until_raise :: "(error + 'a) list \<Rightarrow> (error + 'a) list" where
  "until_raise [] = []"
| "until_raise (Inl e # rs) = [Inl e]"
| "until_raise (Inr v # rs) = Inr v # until_raise rs"

text \<open>The test \<open>r >= b\<close> on the outcome of a call: true when the call returned a
  value that compares \<open>>=\<close> to \<open>b\<close>.\<close>

definition result_ge :: "error + npfloat \<Rightarrow> npfloat \<Rightarrow> bool" where
  "result_ge r b = (case r of Inl e \<Rightarrow> False | Inr v \<Rightarrow> np_ge v b)"

text \<open>\<open>np.median\<close>: NaN if the sequence is empty or holds a NaN, otherwise the middle
  element of the sorted sequence, or the mean of the two middle elements.\<close>

fun np_insort :: "npfloat \<Rightarrow> npfloat list \<Rightarrow> npfloat list" where
  "np_insort x [] = [x]"
| "np_insort x (y # ys) = (if np_ge y x then x # y # ys else y # np_insort x ys)"

definition np_sort :: "npfloat list \<Rightarrow> npfloat list" where
  "np_sort xs = foldr np_insort xs []"

definition np_median :: "npfloat list \<Rightarrow> npfloat" where
  "np_median xs =
     (if NaN \<in> set xs then NaN
      else let s = np_sort xs; n = length xs
           in if n = 0 then NaN
              else if odd n then s ! (n div 2)
              else np_mean [s ! (n div 2 - 1), s ! (n div 2)])"

section \<open>The random source and the library samplers\<close>

text \<open>
  The samplers of \<open>random\<close> and \<open>numpy.random\<close> read and advance an ambient generator.
  The generator state is a value of type \<open>'g\<close> that every sampling call takes and
  returns; the samplers of one variate, and \<open>thinkstats2.Median\<close>, are parameters
  of the model and are collected in one record. A sampler yields finite numbers;
  what a sampler does on arguments it rejects (a zero rate, a negative size) is
  not modelled.
\<close>

record 'g numlib =
  random_gauss :: "real \<Rightarrow> real \<Rightarrow> 'g \<Rightarrow> real \<times> 'g"
  random_expovariate :: "real \<Rightarrow> 'g \<Rightarrow> real \<times> 'g"
  normal_variate :: "real \<Rightarrow> real \<Rightarrow> 'g \<Rightarrow> real \<times> 'g"
  exponential_variate :: "real \<Rightarrow> 'g \<Rightarrow> real \<times> 'g"
  thinkstats2_Median :: "real list \<Rightarrow> npfloat"

text \<open>\<open>range(start, stop)\<close>: empty when \<open>stop \<le> start\<close>.\<close>

definition py_range :: "int \<Rightarrow> int \<Rightarrow> int list" where
  "py_range start stop = [start..stop - 1]"

text \<open>\<open>[draw() for _ in indices]\<close>: one draw per index, in order, each from the
  state the previous draw left.\<close>

fun draw_each :: "('g \<Rightarrow> 'a \<times> 'g) \<Rightarrow> 'i list \<Rightarrow> 'g \<Rightarrow> 'a list \<times> 'g" where
  "draw_each draw [] g = ([], g)"
| "draw_each draw (i # is) g =
     (case draw g of (x, g') \<Rightarrow>
        case draw_each draw is g' of (xs, g'') \<Rightarrow> (x # xs, g''))"

text \<open>\<open>np.random.normal(mu, sigma, n)\<close> and \<open>np.random.exponential(scale, n)\<close>: an
  array of \<open>n\<close> variates, drawn one after the other.\<close>

definition np_random_normal ::
  "'g numlib \<Rightarrow> real \<Rightarrow> real \<Rightarrow> int \<Rightarrow> 'g \<Rightarrow> real list \<times> 'g" where
  "np_random_normal lib mu sigma n g = draw_each (normal_variate lib mu sigma) (py_range 0 n) g"

definition np_random_exponential ::
  "'g numlib \<Rightarrow> real \<Rightarrow> int \<Rightarrow> 'g \<Rightarrow> real list \<times> 'g" where
  "np_random_exponential lib scale n g =
     draw_each (exponential_variate lib scale) (py_range 0 n) g"

section \<open>The simulated experiments\<close>

text \<open>
  Each experiment returns the lists it accumulated, the values it prints (in the
  order printed) and the generator state it leaves. The loop variable of each
  \<open>for\<close> is unused in the source, so the loops recurse over the index list and
  ignore its elements.
\<close>

fun Estimate1_loop ::
  "'g numlib \<Rightarrow> real \<Rightarrow> real \<Rightarrow> int \<Rightarrow> int list \<Rightarrow> npfloat list \<Rightarrow> npfloat list \<Rightarrow> 'g
   \<Rightarrow> npfloat list \<times> npfloat list \<times> 'g" where
  "Estimate1_loop lib mu sigma n [] means medians g = (means, medians, g)"
| "Estimate1_loop lib mu sigma n (i # is) means medians g =
     (case draw_each (random_gauss lib mu sigma) (py_range 0 n) g of (xs, g') \<Rightarrow>
        let xbar = np_mean (map Num xs);
            median = np_median (map Num xs)
        in Estimate1_loop lib mu sigma n is (means @ [xbar]) (medians @ [median]) g')"

definition Estimate1 ::
  "'g numlib \<Rightarrow> int \<Rightarrow> int \<Rightarrow> 'g
   \<Rightarrow> npfloat list \<times> npfloat list \<times> (error + npfloat) list \<times> 'g" where
  "Estimate1 lib n iters g =
     (let mu = 0; sigma = 1
      in case Estimate1_loop lib mu sigma n (py_range 0 iters) [] [] g of
           (means, medians, g') \<Rightarrow>
             (means, medians,
              [RMSE (map NpFloat64 means) (PyFloat (Num mu)),
               RMSE (map NpFloat64 medians) (PyFloat (Num mu))], g'))"

fun Estimate2_loop ::
  "'g numlib \<Rightarrow> real \<Rightarrow> real \<Rightarrow> int \<Rightarrow> int list \<Rightarrow> npfloat list \<Rightarrow> npfloat list \<Rightarrow> 'g
   \<Rightarrow> npfloat list \<times> npfloat list \<times> 'g" where
  "Estimate2_loop lib mu sigma n [] estimates1 estimates2 g = (estimates1, estimates2, g)"
| "Estimate2_loop lib mu sigma n (i # is) estimates1 estimates2 g =
     (case draw_each (random_gauss lib mu sigma) (py_range 0 n) g of (xs, g') \<Rightarrow>
        let biased = np_var 0 (map Num xs);
            unbiased = np_var 1 (map Num xs)
        in Estimate2_loop lib mu sigma n is
             (estimates1 @ [biased]) (estimates2 @ [unbiased]) g')"

definition Estimate2 ::
  "'g numlib \<Rightarrow> int \<Rightarrow> int \<Rightarrow> 'g
   \<Rightarrow> npfloat list \<times> npfloat list \<times> (error + npfloat) list \<times> 'g" where
  "Estimate2 lib n iters g =
     (let mu = 0; sigma = 1
      in case Estimate2_loop lib mu sigma n (py_range 0 iters) [] [] g of
           (estimates1, estimates2, g') \<Rightarrow>
             (estimates1, estimates2,
              [MeanError estimates1 (Num (sigma ^ 2)), MeanError estimates2 (Num (sigma ^ 2))],
              g'))"

fun SimulateSample_loop ::
  "'g numlib \<Rightarrow> real \<Rightarrow> real \<Rightarrow> int \<Rightarrow> int list \<Rightarrow> npfloat list \<Rightarrow> 'g
   \<Rightarrow> npfloat list \<times> 'g" where
  "SimulateSample_loop lib mu sigma n [] xbars g = (xbars, g)"
| "SimulateSample_loop lib mu sigma n (j # js) xbars g =
     (case np_random_normal lib mu sigma n g of (xs, g') \<Rightarrow>
        let xbar = np_mean (map Num xs)
        in SimulateSample_loop lib mu sigma n js (xbars @ [xbar]) g')"

definition SimulateSample ::
  "'g numlib \<Rightarrow> real \<Rightarrow> real \<Rightarrow> int \<Rightarrow> int \<Rightarrow> 'g \<Rightarrow> npfloat list \<times> 'g" where
  "SimulateSample lib mu sigma n iters g =
     SimulateSample_loop lib mu sigma n (py_range 0 iters) [] g"

fun Estimate3_loop ::
  "'g numlib \<Rightarrow> real \<Rightarrow> int \<Rightarrow> int list \<Rightarrow> npfloat list \<Rightarrow> npfloat list \<Rightarrow> 'g
   \<Rightarrow> npfloat list \<times> npfloat list \<times> 'g" where
  "Estimate3_loop lib lam n [] means medians g = (means, medians, g)"
| "Estimate3_loop lib lam n (i # is) means medians g =
     (case np_random_exponential lib (1 / lam) n g of (xs, g') \<Rightarrow>
        let L = np_div (Num 1) (np_mean (map Num xs));
            Lm = np_div (Num (ln 2)) (thinkstats2_Median lib xs)
        in Estimate3_loop lib lam n is (means @ [L]) (medians @ [Lm]) g')"

definition Estimate3 ::
  "'g numlib \<Rightarrow> int \<Rightarrow> int \<Rightarrow> 'g
   \<Rightarrow> npfloat list \<times> npfloat list \<times> (error + npfloat) list \<times> 'g" where
  "Estimate3 lib n iters g =
     (let lam = 2
      in case Estimate3_loop lib lam n (py_range 0 iters) [] [] g of
           (means, medians, g') \<Rightarrow>
             (means, medians,
              [RMSE (map NpFloat64 means) (PyFloat (Num lam)),
               RMSE (map NpFloat64 medians) (PyFloat (Num lam)),
               MeanError means (Num lam), MeanError medians (Num lam)],
              g'))"

text \<open>
  \<open>SimulateGame\<close> loops until the clock passes one game; \<open>t += time_between_goals\<close>
  is a float64 addition. Nothing bounds the number of draws, so the loop is a
  partial function: \<open>None\<close> stands for a game that never ends.
\<close>

partial_function (option) SimulateGame_loop ::
  "'g numlib \<Rightarrow> real \<Rightarrow> int \<Rightarrow> npfloat \<Rightarrow> 'g \<Rightarrow> (int \<times> 'g) option" where
  "SimulateGame_loop lib lam goals t g =
     (case random_expovariate lib lam g of (time_between_goals, g') \<Rightarrow>
        let t' = f64_add t (Num time_between_goals)
        in if np_gt t' (Num 1) then Some (goals, g')
           else SimulateGame_loop lib lam (goals + 1) t' g')"

definition SimulateGame :: "'g numlib \<Rightarrow> real \<Rightarrow> 'g \<Rightarrow> (int \<times> 'g) option" where
  "SimulateGame lib lam g = SimulateGame_loop lib lam 0 (Num 0) g"

fun ManyGames_loop ::
  "'g numlib \<Rightarrow> real \<Rightarrow> int list \<Rightarrow> int list \<Rightarrow> 'g \<Rightarrow> (int list \<times> 'g) option" where
  "ManyGames_loop lib lam [] goals g = Some (goals, g)"
| "ManyGames_loop lib lam (i # is) goals g =
     (case SimulateGame lib lam g of
        None \<Rightarrow> None
      | Some (L, g') \<Rightarrow> ManyGames_loop lib lam is (goals @ [L]) g')"

definition ManyGames ::
  "'g numlib \<Rightarrow> real \<Rightarrow> 'g \<Rightarrow> (int list \<times> (error + npfloat) list \<times> 'g) option" where
  "ManyGames lib lam g =
     (case ManyGames_loop lib lam (py_range 1 10000) [] g of
        None \<Rightarrow> None
      | Some (goals, g') \<Rightarrow>
          Some (goals,
                until_raise
                  [RMSE (map (\<lambda>L. PyFloat (Num (of_int L))) goals) (PyFloat (Num lam)),
                   MeanError (map (\<lambda>L. Num (of_int L)) goals) (Num lam)],
                g'))"

section \<open>What the experiments draw\<close>

text \<open>
  The first \<open>k\<close> inter-goal times that successive calls of \<open>random.expovariate(lam)\<close>
  yield from generator state \<open>g\<close>, the reading of the clock after them, and the
  state they leave.
\<close>

definition inter_goal_times :: "'g numlib \<Rightarrow> real \<Rightarrow> 'g \<Rightarrow> nat \<Rightarrow> real list" where
  "inter_goal_times lib lam g k = fst (draw_each (random_expovariate lib lam) [0..<k] g)"

definition clock_from :: "npfloat \<Rightarrow> real list \<Rightarrow> npfloat" where
  "clock_from t ds = foldl (\<lambda>t d. f64_add t (Num d)) t ds"

definition game_clock :: "'g numlib \<Rightarrow> real \<Rightarrow> 'g \<Rightarrow> nat \<Rightarrow> npfloat" where
  "game_clock lib lam g k = clock_from (Num 0) (inter_goal_times lib lam g k)"

definition generator_after :: "'g numlib \<Rightarrow> real \<Rightarrow> 'g \<Rightarrow> nat \<Rightarrow> 'g" where
  "generator_after lib lam g k = snd (draw_each (random_expovariate lib lam) [0..<k] g)"

text \<open>One game per index, in order, each from the state the previous game left;
  \<open>None\<close> if one of the games never ends.\<close>

fun play_each :: "'g numlib \<Rightarrow> real \<Rightarrow> 'i list \<Rightarrow> 'g \<Rightarrow> (int list \<times> 'g) option" where
  "play_each lib lam [] g = Some ([], g)"
| "play_each lib lam (i # is) g =
     (case SimulateGame lib lam g of
        None \<Rightarrow> None
      | Some (L, g') \<Rightarrow>
          (case play_each lib lam is g' of
             None \<Rightarrow> None
           | Some (Ls, g'') \<Rightarrow> Some (L # Ls, g'')))"

text \<open>The samples an experiment draws, one per iteration: by list comprehension
  over \<open>random.gauss\<close>, by \<open>np.random.normal\<close> and by \<open>np.random.exponential\<close>.\<close>

definition gauss_trials :: "'g numlib \<Rightarrow> real \<Rightarrow> real \<Rightarrow> int \<Rightarrow> int \<Rightarrow> 'g \<Rightarrow> real list list" where
  "gauss_trials lib mu sigma n iters g =
     fst (draw_each (draw_each (random_gauss lib mu sigma) (py_range 0 n)) (py_range 0 iters) g)"

definition normal_trials :: "'g numlib \<Rightarrow> real \<Rightarrow> real \<Rightarrow> int \<Rightarrow> int \<Rightarrow> 'g \<Rightarrow> real list list" where
  "normal_trials lib mu sigma n iters g =
     fst (draw_each (np_random_normal lib mu sigma n) (py_range 0 iters) g)"

definition exponential_trials :: "'g numlib \<Rightarrow> real \<Rightarrow> int \<Rightarrow> int \<Rightarrow> 'g \<Rightarrow> real list list" where
  "exponential_trials lib scale n iters g =
     fst (draw_each (np_random_exponential lib scale n) (py_range 0 iters) g)"

section \<open>A concrete library for worked examples\<close>

text \<open>
  A deterministic stand-in for the samplers, with a counter as generator state:
  the Gaussian sampler yields \<open>mu + sigma * (g mod 4)\<close>, the sampler of inter-goal
  times always yields \<open>d\<close>, the numpy samplers yield an arithmetic progression,
  and the median is the lower middle element.
\<close>

definition clockwork :: "real \<Rightarrow> nat numlib" where
  "clockwork d =
     \<lparr> random_gauss = (\<lambda>mu sigma g. (mu + sigma * real (g mod 4), Suc g)),
       random_expovariate = (\<lambda>lam g. (d, Suc g)),
       normal_variate = (\<lambda>mu sigma g. (mu + sigma * real g, Suc g)),
       exponential_variate = (\<lambda>scale g. (scale * (1 + real g), Suc g)),
       thinkstats2_Median =
         (\<lambda>xs. if xs = [] then NaN else Num (sort xs ! ((length xs - 1) div 2))) \<rparr>"

text \<open>The float64 nearest to one fifth.\<close>

definition double_0_2 :: real where
  "double_0_2 = 3602879701896397 / 2 ^ 54"

section \<open>numpy's arithmetic on sequences of numbers\<close>

lemma np_sum_Num: "np_sum (map Num xs) = Num (sum_list xs)"
  by (induction xs) simp_all

lemma np_mean_Num:
  "xs \<noteq> [] \<Longrightarrow> np_mean (map Num xs) = Num (sum_list xs / real (length xs))"
  by (simp add: np_mean_def np_sum_Num)

lemma np_var_Num:
  assumes "ddof < length rs"
  shows "np_var ddof (map Num rs) =
         Num ((\<Sum>x\<leftarrow>rs. (x - sum_list rs / real (length rs)) ^ 2) / real (length rs - ddof))"
proof -
  have ne: "rs \<noteq> []"
    using assms by auto
  have d: "real (length rs - ddof) \<noteq> 0"
    using assms by simp
  have sq: "map (\<lambda>v. np_pow2 (np_sub v (Num m))) (map Num rs) = map Num (map (\<lambda>x. (x - m) ^ 2) rs)"
    for m
    by simp
  show ?thesis
    unfolding np_var_def Let_def np_mean_Num [OF ne] sq np_sum_Num
    using d by (simp add: comp_def)
qed

section \<open>Rounding to the nearest float64\<close>

lemma round_half_even_of_int: "round_half_even (of_int z) = z"
  by (simp add: round_half_even_def)

lemma round_half_even_error: "\<bar>of_int (round_half_even y) - y\<bar> \<le> 1 / 2"
proof -
  have "of_int \<lfloor>y\<rfloor> \<le> y" "y < of_int \<lfloor>y\<rfloor> + 1"
    by linarith+
  then show ?thesis
    by (auto simp: round_half_even_def Let_def)
qed

lemma round_half_even_nonneg: "0 \<le> y \<Longrightarrow> 0 \<le> round_half_even y"
  by (auto simp: round_half_even_def Let_def)

lemma round_half_even_small: "\<bar>y\<bar> \<le> 1 / 2 \<Longrightarrow> round_half_even y = 0"
proof -
  assume y: "\<bar>y\<bar> \<le> 1 / 2"
  show ?thesis
  proof (cases "0 \<le> y")
    case True
    with y have "\<lfloor>y\<rfloor> = 0"
      by (intro floor_unique) simp_all
    with y True show ?thesis
      by (simp add: round_half_even_def Let_def)
  next
    case False
    with y have "\<lfloor>y\<rfloor> = - 1"
      by (intro floor_unique) simp_all
    with y False show ?thesis
      by (auto simp: round_half_even_def Let_def)
  qed
qed

lemma round64_0: "round64 0 = 0"
  by (simp add: round64_def)

lemma round64_nonneg: "0 \<le> x \<Longrightarrow> 0 \<le> round64 x"
  by (auto simp: round64_def Let_def round_half_even_nonneg)

lemma binade:
  fixes x :: real
  assumes "x \<noteq> 0"
  shows "2 powi \<lfloor>log 2 \<bar>x\<bar>\<rfloor> \<le> \<bar>x\<bar>" and "\<bar>x\<bar> < 2 powi (\<lfloor>log 2 \<bar>x\<bar>\<rfloor> + 1)"
proof -
  have pos: "0 < \<bar>x\<bar>"
    using assms by simp
  have p1: "(2::real) powr real_of_int k = 2 powi k" for k
    by (rule powr_real_of_int') simp_all
  have p2: "(2::real) powr (real_of_int k + 1) = 2 powi (k + 1)" for k
    using powr_real_of_int' [of 2 "k + 1"] by simp
  have "\<lfloor>log 2 \<bar>x\<bar>\<rfloor> = \<lfloor>log 2 \<bar>x\<bar>\<rfloor>" ..
  then have "2 powi \<lfloor>log 2 \<bar>x\<bar>\<rfloor> \<le> \<bar>x\<bar> \<and> \<bar>x\<bar> < 2 powi (\<lfloor>log 2 \<bar>x\<bar>\<rfloor> + 1)"
    unfolding floor_log_eq_powr_iff [OF pos, of 2, simplified] p1 p2 .
  then show "2 powi \<lfloor>log 2 \<bar>x\<bar>\<rfloor> \<le> \<bar>x\<bar>" and "\<bar>x\<bar> < 2 powi (\<lfloor>log 2 \<bar>x\<bar>\<rfloor> + 1)"
    by simp_all
qed

lemma round64_binade:
  assumes "2 powi k \<le> \<bar>x\<bar>" and "\<bar>x\<bar> < 2 powi (k + 1)" and "- 1022 \<le> k"
  shows "round64 x = of_int (round_half_even (x / 2 powi (k - 52))) * 2 powi (k - 52)"
proof -
  have pos: "0 < \<bar>x\<bar>"
    using assms(1) by (smt (verit) zero_less_power_int)
  have p1: "(2::real) powr real_of_int k = 2 powi k"
    by (rule powr_real_of_int') simp_all
  have p2: "(2::real) powr (real_of_int k + 1) = 2 powi (k + 1)"
    using powr_real_of_int' [of 2 "k + 1"] by simp
  have "\<lfloor>log 2 \<bar>x\<bar>\<rfloor> = k"
    unfolding floor_log_eq_powr_iff [OF pos, of 2, simplified] p1 p2
    using assms(1,2) by simp
  moreover have "x \<noteq> 0"
    using pos by auto
  ultimately show ?thesis
    using assms(3) by (simp add: round64_def Let_def max_def)
qed

lemma round64_spacing:
  assumes "x \<noteq> 0"
  obtains e :: int where "- 1022 \<le> e" and "\<bar>x\<bar> < 2 powi (e + 1)"
    and "e = - 1022 \<or> 2 powi e \<le> \<bar>x\<bar>"
    and "round64 x = of_int (round_half_even (x / 2 powi (e - 52))) * 2 powi (e - 52)"
proof -
  define e where "e = max \<lfloor>log 2 \<bar>x\<bar>\<rfloor> (- 1022)"
  have r: "round64 x = of_int (round_half_even (x / 2 powi (e - 52))) * 2 powi (e - 52)"
    using assms by (simp add: round64_def Let_def e_def)
  have lo: "- 1022 \<le> e"
    by (simp add: e_def)
  have "\<bar>x\<bar> < 2 powi (\<lfloor>log 2 \<bar>x\<bar>\<rfloor> + 1)"
    using assms by (rule binade)
  also have "\<dots> \<le> 2 powi (e + 1)"
    by (rule power_int_increasing) (simp_all add: e_def)
  finally have hi: "\<bar>x\<bar> < 2 powi (e + 1)" .
  have third: "e = - 1022 \<or> 2 powi e \<le> \<bar>x\<bar>"
    using binade(1) [OF assms] by (auto simp: e_def max_def)
  from lo hi third r show ?thesis
    by (rule that)
qed

lemma round64_dyadic:
  assumes "\<bar>z\<bar> < 2 ^ 53" and "- 1074 \<le> j"
  shows "round64 (of_int z * 2 powi j) = of_int z * 2 powi j"
proof (cases "z = 0")
  case True
  then show ?thesis
    by (simp add: round64_0)
next
  case False
  let ?x = "real_of_int z * 2 powi j"
  have x0: "?x \<noteq> 0"
    using False by simp
  from round64_spacing [OF x0] obtain e :: int
    where e: "- 1022 \<le> e" "\<bar>?x\<bar> < 2 powi (e + 1)" "e = - 1022 \<or> 2 powi e \<le> \<bar>?x\<bar>"
      and r: "round64 ?x = of_int (round_half_even (?x / 2 powi (e - 52))) * 2 powi (e - 52)"
    by blast
  have ej: "e - 52 \<le> j"
  proof (cases "e = - 1022")
    case True
    with assms(2) show ?thesis by simp
  next
    case False
    with e(3) have "2 powi e \<le> \<bar>?x\<bar>"
      by simp
    also have "\<bar>?x\<bar> = \<bar>real_of_int z\<bar> * 2 powi j"
      by (simp add: abs_mult)
    also have "\<dots> < 2 ^ 53 * 2 powi j"
    proof (rule mult_strict_right_mono)
      have "real_of_int \<bar>z\<bar> < real_of_int (2 ^ 53)"
        using assms(1) by (simp only: of_int_less_iff)
      then show "\<bar>real_of_int z\<bar> < 2 ^ 53"
        by simp
      show "(0::real) < 2 powi j"
        by simp
    qed
    also have "\<dots> = 2 powi (53 + j)"
      by (simp add: power_int_add)
    finally have lt: "(2::real) powi e < 2 powi (53 + j)" .
    have "e < 53 + j"
    proof (rule ccontr)
      assume "\<not> e < 53 + j"
      then have "53 + j \<le> e"
        by simp
      then have "(2::real) powi (53 + j) \<le> 2 powi e"
        by (rule power_int_increasing) simp
      with lt show False
        by simp
    qed
    then show ?thesis
      by simp
  qed
  define d where "d = nat (j - (e - 52))"
  have j: "j = (e - 52) + int d"
    using ej by (simp add: d_def)
  have q: "?x / 2 powi (e - 52) = of_int (z * 2 ^ d)"
    unfolding j by (simp add: power_int_add)
  have "round64 ?x = of_int (z * 2 ^ d) * 2 powi (e - 52)"
    unfolding r q round_half_even_of_int ..
  also have "\<dots> = ?x"
    unfolding j by (simp add: power_int_add)
  finally show ?thesis .
qed

lemma round64_of_int: "\<bar>z\<bar> < 2 ^ 53 \<Longrightarrow> round64 (of_int z) = of_int z"
  using round64_dyadic [of z 0] by simp

lemma round64_error:
  assumes "1 / 2 ^ 1022 \<le> \<bar>x\<bar>"
  shows "\<bar>round64 x - x\<bar> \<le> \<bar>x\<bar> / 2 ^ 53"
proof -
  have x0: "x \<noteq> 0"
    using assms by auto
  from round64_spacing [OF x0] obtain e :: int
    where e: "- 1022 \<le> e" "\<bar>x\<bar> < 2 powi (e + 1)" "e = - 1022 \<or> 2 powi e \<le> \<bar>x\<bar>"
      and r: "round64 x = of_int (round_half_even (x / 2 powi (e - 52))) * 2 powi (e - 52)"
    by blast
  have lo: "2 powi e \<le> \<bar>x\<bar>"
  proof (cases "e = - 1022")
    case True
    have "(2::real) powi (- 1022) = 1 / 2 ^ 1022"
      by (simp add: power_int_minus field_simps)
    with assms True show ?thesis
      by simp
  next
    case False
    with e(3) show ?thesis by simp
  qed
  let ?u = "(2::real) powi (e - 52)"
  have u: "0 < ?u"
    by simp
  have "round64 x - x = (of_int (round_half_even (x / ?u)) - x / ?u) * ?u"
    unfolding r using u by (simp add: field_simps)
  then have "\<bar>round64 x - x\<bar> = \<bar>of_int (round_half_even (x / ?u)) - x / ?u\<bar> * ?u"
    using u by (simp add: abs_mult)
  also have "\<dots> \<le> (1 / 2) * ?u"
    by (rule mult_right_mono [OF round_half_even_error]) simp
  also have "\<dots> = 2 powi e / 2 ^ 53"
    by (simp add: power_int_diff)
  also have "\<dots> \<le> \<bar>x\<bar> / 2 ^ 53"
    using lo by (simp add: divide_right_mono)
  finally show ?thesis .
qed

lemma round64_tiny:
  assumes "\<bar>x\<bar> \<le> 1 / 2 ^ 1075"
  shows "round64 x = 0"
proof (cases "x = 0")
  case True
  then show ?thesis
    by (simp add: round64_0)
next
  case False
  from round64_spacing [OF False] obtain e :: int
    where e: "- 1022 \<le> e" "e = - 1022 \<or> 2 powi e \<le> \<bar>x\<bar>"
      and r: "round64 x = of_int (round_half_even (x / 2 powi (e - 52))) * 2 powi (e - 52)"
    by blast
  have "e = - 1022"
  proof (rule ccontr)
    assume ne: "e \<noteq> - 1022"
    with e(2) have "2 powi e \<le> \<bar>x\<bar>"
      by simp
    moreover have "(2::real) powi (- 1022) \<le> 2 powi e"
      using e(1) by (intro power_int_increasing) simp_all
    moreover have "(1::real) / 2 ^ 1075 < 2 powi (- 1022)"
      by (simp add: power_int_minus field_simps)
    ultimately show False
      using assms by linarith
  qed
  then have u: "(2::real) powi (e - 52) = 1 / 2 ^ 1074"
    by (simp add: power_int_minus field_simps)
  have "\<bar>x / (1 / 2 ^ 1074)\<bar> = \<bar>x\<bar> * 2 ^ 1074"
    by (simp add: abs_mult)
  also have "\<dots> \<le> 1 / 2 ^ 1075 * 2 ^ 1074"
    using assms by (intro mult_right_mono) simp_all
  also have "\<dots> = 1 / 2"
    by simp
  finally have "round_half_even (x / (1 / 2 ^ 1074)) = 0"
    by (rule round_half_even_small)
  then show ?thesis
    unfolding r u by simp
qed

text \<open>Some floats, and some reals that are not.\<close>

lemma round64_small_ints:
  "round64 1 = 1" "round64 2 = 2" "round64 3 = 3" "round64 4 = 4" "round64 5 = 5"
  "round64 6 = 6" "round64 7 = 7" "round64 8 = 8" "round64 9 = 9" "round64 18 = 18"
  "round64 (- 1) = - 1" "round64 (- 3) = - 3"
  using round64_of_int [of 1] round64_of_int [of 2] round64_of_int [of 3] round64_of_int [of 4]
    round64_of_int [of 5] round64_of_int [of 6] round64_of_int [of 7] round64_of_int [of 8]
    round64_of_int [of 9] round64_of_int [of 18] round64_of_int [of "- 1"] round64_of_int [of "- 3"]
  by simp_all

lemma round64_powers:
  "round64 (2 ^ 512) = 2 ^ 512" "round64 (2 ^ 1023) = 2 ^ 1023" "round64 (2 ^ 1024) = 2 ^ 1024"
  "round64 (1 / 2 ^ 600) = 1 / 2 ^ 600"
  using round64_dyadic [of 1 512] round64_dyadic [of 1 1023] round64_dyadic [of 1 1024]
    round64_dyadic [of 1 "- 600"]
  by (simp_all add: power_int_minus field_simps)

lemma round64_thirds:
  "round64 (8 / 3) = 6004799503160661 / 2 ^ 51"
  "round64 (5 / 3) = 7505999378950827 / 2 ^ 52"
  "round64 (7505999378950827 / 2 ^ 52 + 1) = 3002399751580331 / 2 ^ 50"
proof -
  show "round64 (8 / 3) = 6004799503160661 / 2 ^ 51"
    using round64_binade [of 1 "8 / 3"]
    by (simp add: power_int_minus round_half_even_def field_simps)
  show "round64 (5 / 3) = 7505999378950827 / 2 ^ 52"
    using round64_binade [of 0 "5 / 3"]
    by (simp add: power_int_minus round_half_even_def field_simps)
  show "round64 (7505999378950827 / 2 ^ 52 + 1) = 3002399751580331 / 2 ^ 50"
    using round64_binade [of 1 "7505999378950827 / 2 ^ 52 + 1"]
    by (simp add: power_int_minus round_half_even_def field_simps)
qed

section \<open>Operations that do not round\<close>

lemma threshold_above: "2 ^ 1023 < overflow_threshold"
  by (simp add: overflow_threshold_def)

lemma threshold_pos: "0 < overflow_threshold"
  using threshold_above by (rule order.strict_trans [rotated]) simp

lemma overflowed_Num: "\<bar>r\<bar> < overflow_threshold \<Longrightarrow> overflowed r = Num r"
  by (auto simp: overflowed_def)

lemma overflowed_not_NaN: "overflowed r \<noteq> NaN"
  by (simp add: overflowed_def)

lemma threshold_huge: "\<bar>r\<bar> \<le> 2 \<Longrightarrow> overflowed r = Num r"
proof (rule overflowed_Num)
  assume "\<bar>r\<bar> \<le> 2"
  moreover have "(2::real) \<le> 2 ^ 1023"
    by simp
  ultimately show "\<bar>r\<bar> < overflow_threshold"
    using threshold_above by linarith
qed

lemma rounded_representable: "representable x \<Longrightarrow> rounded (Num x) = Num x"
  by (simp add: representable_def overflowed_Num)

lemma f64_add_exact: "representable (a + b) \<Longrightarrow> f64_add (Num a) (Num b) = Num (a + b)"
  by (simp add: f64_add_def rounded_representable del: rounded.simps)

lemma f64_sub_exact: "representable (a - b) \<Longrightarrow> f64_sub (Num a) (Num b) = Num (a - b)"
  by (simp add: f64_sub_def rounded_representable del: rounded.simps)

lemma f64_div_exact:
  "b \<noteq> 0 \<Longrightarrow> representable (a / b) \<Longrightarrow> f64_div (Num a) (Num b) = Num (a / b)"
  by (simp add: f64_div_def rounded_representable del: rounded.simps)

lemma f64_sqrt_exact:
  "0 \<le> a \<Longrightarrow> representable (sqrt a) \<Longrightarrow> f64_sqrt (Num a) = Num (sqrt a)"
  by (simp add: f64_sqrt_def rounded_representable del: rounded.simps)

lemma representable_of_int: "\<bar>z\<bar> < 2 ^ 53 \<Longrightarrow> representable (of_int z)"
proof -
  assume z: "\<bar>z\<bar> < 2 ^ 53"
  then have "real_of_int \<bar>z\<bar> < real_of_int (2 ^ 53)"
    by (simp only: of_int_less_iff)
  then have "\<bar>real_of_int z\<bar> < 2 ^ 53"
    by simp
  also have "(2::real) ^ 53 \<le> 2 ^ 1023"
    by (rule power_increasing) simp_all
  finally have "\<bar>real_of_int z\<bar> < overflow_threshold"
    using threshold_above by linarith
  with round64_of_int [OF z] show ?thesis
    by (simp add: representable_def)
qed

lemma representable_0: "representable 0"
  using representable_of_int [of 0] by simp

lemma representable_small_ints:
  "representable 0" "representable 1" "representable 2" "representable 3" "representable 4"
  "representable 5" "representable 6" "representable 9"
  using representable_of_int [of 0] representable_of_int [of 1] representable_of_int [of 2]
    representable_of_int [of 3] representable_of_int [of 4] representable_of_int [of 5]
    representable_of_int [of 6] representable_of_int [of 9]
  by simp_all

lemma f64_add_Num: "f64_add (Num a) (Num b) = overflowed (round64 (a + b))"
  by (simp add: f64_add_def)

lemma f64_sum_from_exact:
  "list_all representable (running_sums acc xs) \<Longrightarrow>
   f64_sum_from (Num acc) (map Num xs) = Num (acc + sum_list xs)"
proof (induction xs arbitrary: acc)
  case Nil
  then show ?case by simp
next
  case (Cons x xs)
  then have step: "f64_add (Num acc) (Num x) = Num (acc + x)"
    by (simp add: f64_add_exact)
  from Cons have "list_all representable (running_sums (acc + x) xs)"
    by simp
  from Cons.IH [OF this] show ?case
    by (simp add: step add.assoc)
qed

lemma f64_mean_exact:
  assumes "xs \<noteq> []" and "list_all representable (running_sums 0 xs)"
    and "representable (sum_list xs / real (length xs))"
  shows "f64_mean (map Num xs) = Num (sum_list xs / real (length xs))"
proof -
  have "f64_sum_from (Num 0) (map Num xs) = Num (0 + sum_list xs)"
    using assms(2) by (rule f64_sum_from_exact)
  then show ?thesis
    using assms(1,3) by (simp add: f64_mean_def f64_div_exact)
qed

lemma MeanError_Nil: "MeanError [] a = Inr NaN"
  by (simp add: MeanError_def f64_mean_def f64_div_def)

lemma RMSE_Nil: "RMSE [] a = Inr NaN"
  by (simp add: RMSE_def f64_mean_def f64_div_def f64_sqrt_def)

lemma MeanError_exact:
  assumes "es \<noteq> []"
    and "list_all (\<lambda>e. representable (e - a)) es"
    and "list_all representable (running_sums 0 (map (\<lambda>e. e - a) es))"
    and "representable ((\<Sum>e\<leftarrow>es. e - a) / real (length es))"
  shows "MeanError (map Num es) (Num a) = Inr (Num ((\<Sum>e\<leftarrow>es. e - a) / real (length es)))"
proof -
  let ?errors = "map (\<lambda>e. e - a) es"
  have errs: "map (\<lambda>e. f64_sub e (Num a)) (map Num es) = map Num ?errors"
    using assms(2) by (simp add: f64_sub_exact list_all_iff)
  have m: "f64_mean (map Num ?errors) = Num (sum_list ?errors / real (length ?errors))"
  proof (rule f64_mean_exact)
    show "?errors \<noteq> []"
      using assms(1) by simp
    show "list_all representable (running_sums 0 ?errors)"
      by (rule assms(3))
    show "representable (sum_list ?errors / real (length ?errors))"
      using assms(4) by simp
  qed
  show ?thesis
    unfolding MeanError_def Let_def errs m by simp
qed

lemma MeanError_shift_without_rounding:
  assumes "es \<noteq> []"
    and "list_all (\<lambda>e. representable (e - a) \<and> representable (e + c) \<and>
                        representable (e + c - a)) es"
    and "list_all representable (running_sums 0 (map (\<lambda>e. e - a) es))"
    and "list_all representable (running_sums 0 (map (\<lambda>e. e + c - a) es))"
    and "representable ((\<Sum>e\<leftarrow>es. e - a) / real (length es))"
    and "representable ((\<Sum>e\<leftarrow>es. e - a) / real (length es) + c)"
  shows "MeanError (map (\<lambda>e. f64_add e (Num c)) (map Num es)) (Num a) =
           Inr (Num ((\<Sum>e\<leftarrow>es. e - a) / real (length es) + c)) \<and>
         MeanError (map Num es) (Num a) = Inr (Num ((\<Sum>e\<leftarrow>es. e - a) / real (length es))) \<and>
         f64_add (Num ((\<Sum>e\<leftarrow>es. e - a) / real (length es))) (Num c) =
           Num ((\<Sum>e\<leftarrow>es. e - a) / real (length es) + c)"
proof (intro conjI)
  let ?v = "(\<Sum>e\<leftarrow>es. e - a) / real (length es)"
  let ?shifted = "map (\<lambda>e. e + c) es"
  have pos: "0 < real (length es)"
    using assms(1) by simp
  have sh: "map (\<lambda>e. f64_add e (Num c)) (map Num es) = map Num ?shifted"
    using assms(2) by (simp add: f64_add_exact list_all_iff)
  have sum': "(\<Sum>e\<leftarrow>?shifted. e - a) = (\<Sum>e\<leftarrow>es. e - a) + real (length es) * c"
    by (induction es) (simp_all add: algebra_simps)
  have v': "(\<Sum>e\<leftarrow>?shifted. e - a) / real (length ?shifted) = ?v + c"
    unfolding sum' length_map using pos by (simp add: field_simps)
  have "MeanError (map Num ?shifted) (Num a) =
        Inr (Num ((\<Sum>e\<leftarrow>?shifted. e - a) / real (length ?shifted)))"
  proof (rule MeanError_exact)
    show "?shifted \<noteq> []"
      using assms(1) by simp
    show "list_all (\<lambda>e. representable (e - a)) ?shifted"
      using assms(2) by (simp add: list_all_iff)
    show "list_all representable (running_sums 0 (map (\<lambda>e. e - a) ?shifted))"
      using assms(4) by (simp add: comp_def)
    show "representable ((\<Sum>e\<leftarrow>?shifted. e - a) / real (length ?shifted))"
      unfolding v' by (rule assms(6))
  qed
  then show "MeanError (map (\<lambda>e. f64_add e (Num c)) (map Num es)) (Num a) = Inr (Num (?v + c))"
    unfolding sh v' .
  show "MeanError (map Num es) (Num a) = Inr (Num ?v)"
  proof (rule MeanError_exact [OF assms(1) _ assms(3) assms(5)])
    show "list_all (\<lambda>e. representable (e - a)) es"
      using assms(2) by (simp add: list_all_iff)
  qed
  show "f64_add (Num ?v) (Num c) = Num (?v + c)"
    using assms(6) by (rule f64_add_exact)
qed

lemma RMSE_1_7:
  "RMSE [PyFloat (Num 1), PyFloat (Num 7)] (PyFloat (Num 4)) = Inr (Num 3)"
  "RMSE [NpFloat64 (Num 1), NpFloat64 (Num 7)] (PyFloat (Num 4)) = Inr (Num 3)"
proof -
  have s: "sqrt 9 = 3"
    using real_sqrt_abs [of 3] by simp
  show "RMSE [PyFloat (Num 1), PyFloat (Num 7)] (PyFloat (Num 4)) = Inr (Num 3)"
    by (simp add: RMSE_def f64_sub_def f64_add_def f64_div_def f64_sqrt_def f64_mean_def
        round64_small_ints round64_0 threshold_huge overflowed_def overflow_threshold_def s)
  show "RMSE [NpFloat64 (Num 1), NpFloat64 (Num 7)] (PyFloat (Num 4)) = Inr (Num 3)"
    by (simp add: RMSE_def f64_sub_def f64_add_def f64_div_def f64_sqrt_def f64_mean_def
        round64_small_ints round64_0 threshold_huge overflowed_def overflow_threshold_def s)
qed

lemma RMSE_single_underflow:
  assumes "representable x" and "\<bar>x ^ 2\<bar> \<le> 1 / 2 ^ 1075"
  shows "RMSE [PyFloat (Num x)] (PyFloat (Num 0)) = Inr (Num 0)"
proof -
  have sub: "f64_sub (Num x) (Num 0) = Num x"
    using f64_sub_exact [of x 0] assms(1) by simp
  have sq: "round64 (x ^ 2) = 0"
    using assms(2) by (rule round64_tiny)
  have zero: "overflowed 0 = Num 0"
    using threshold_pos by (simp add: overflowed_def)
  show ?thesis
    using threshold_pos
    by (simp add: RMSE_def sub sq f64_add_def f64_div_def f64_sqrt_def f64_mean_def round64_0 zero)
qed

text \<open>Sums of integers below \<open>2\<^sup>5\<^sup>3\<close> do not round.\<close>

lemma abs_member_le_sum_abs:
  fixes zs :: "int list"
  shows "z \<in> set zs \<Longrightarrow> \<bar>z\<bar> \<le> (\<Sum>z\<leftarrow>zs. \<bar>z\<bar>)"
proof (induction zs)
  case Nil
  then show ?case by simp
next
  case (Cons y ys)
  have "0 \<le> (\<Sum>z\<leftarrow>ys. \<bar>z\<bar>)"
    by (rule sum_list_nonneg) auto
  with Cons show ?case
    by auto
qed

lemma sum_abs_shifted:
  fixes zs :: "int list"
  shows "(\<Sum>z\<leftarrow>zs. \<bar>z + s\<bar>) \<le> (\<Sum>z\<leftarrow>zs. \<bar>z\<bar>) + int (length zs) * \<bar>s\<bar>"
proof (induction zs)
  case Nil
  then show ?case by simp
next
  case (Cons z zs)
  have "\<bar>z + s\<bar> \<le> \<bar>z\<bar> + \<bar>s\<bar>"
    by simp
  with Cons show ?case
    by (simp add: algebra_simps)
qed

lemma integer_running_sums:
  "\<bar>A\<bar> + (\<Sum>z\<leftarrow>zs. \<bar>z\<bar>) < 2 ^ 53 \<Longrightarrow>
   list_all representable (running_sums (of_int A) (map of_int zs))"
proof (induction zs arbitrary: A)
  case Nil
  then show ?case by simp
next
  case (Cons z zs)
  have nn: "0 \<le> (\<Sum>z\<leftarrow>zs. \<bar>z\<bar>)"
    by (rule sum_list_nonneg) auto
  have "\<bar>A + z\<bar> \<le> \<bar>A\<bar> + \<bar>z\<bar>"
    by simp
  with Cons.prems nn have here: "\<bar>A + z\<bar> < 2 ^ 53" and rest: "\<bar>A + z\<bar> + (\<Sum>z\<leftarrow>zs. \<bar>z\<bar>) < 2 ^ 53"
    by simp_all
  have "representable (of_int (A + z))"
    using here by (rule representable_of_int)
  moreover have "list_all representable (running_sums (of_int (A + z)) (map of_int zs))"
    using rest by (rule Cons.IH)
  ultimately show ?case
    by simp
qed

section \<open>Accumulated rounding errors\<close>

lemma unit_roundoff_bounds: "0 < unit_roundoff" "unit_roundoff < 1"
  by (simp_all add: unit_roundoff_def)

lemma factors:
  shows "0 < (1 - unit_roundoff) ^ n" and "(1 - unit_roundoff) ^ n \<le> 1"
    and "1 \<le> (1 + unit_roundoff) ^ n"
  using unit_roundoff_bounds
  by (simp_all add: power_le_one one_le_power)

lemma factors_bounded:
  assumes "n \<le> 2 ^ 33"
  shows "1 / 2 \<le> (1 - unit_roundoff) ^ n" and "(1 + unit_roundoff) ^ n \<le> 2"
proof -
  have n: "real n \<le> 2 ^ 33"
    using assms by (metis of_nat_le_iff of_nat_numeral of_nat_power)
  have "real n * unit_roundoff \<le> 2 ^ 33 * unit_roundoff"
    using n unit_roundoff_bounds(1) by (intro mult_right_mono) simp_all
  also have "\<dots> \<le> 1 / 2"
    by (simp add: unit_roundoff_def)
  finally have nu: "real n * unit_roundoff \<le> 1 / 2" .
  have "1 + real n * (- unit_roundoff) \<le> (1 + (- unit_roundoff)) ^ n"
    by (rule Bernoulli_inequality) (use unit_roundoff_bounds in simp)
  with nu show lo: "1 / 2 \<le> (1 - unit_roundoff) ^ n"
    by simp
  have "(1 + unit_roundoff) ^ n * (1 - unit_roundoff) ^ n = ((1 + unit_roundoff) * (1 - unit_roundoff)) ^ n"
    by (simp add: power_mult_distrib)
  also have "\<dots> \<le> 1"
  proof (rule power_le_one)
    show "0 \<le> (1 + unit_roundoff) * (1 - unit_roundoff)"
      using unit_roundoff_bounds by simp
    have "(1 + unit_roundoff) * (1 - unit_roundoff) = 1 - unit_roundoff ^ 2"
      by (simp add: algebra_simps power2_eq_square)
    then show "(1 + unit_roundoff) * (1 - unit_roundoff) \<le> 1"
      by simp
  qed
  finally have prod: "(1 + unit_roundoff) ^ n * (1 - unit_roundoff) ^ n \<le> 1" .
  have "(1 + unit_roundoff) ^ n * (1 / 2) \<le> (1 + unit_roundoff) ^ n * (1 - unit_roundoff) ^ n"
    using lo factors(3) [of n] by (intro mult_left_mono) simp_all
  with prod show "(1 + unit_roundoff) ^ n \<le> 2"
    by simp
qed

lemma roundings_mono:
  assumes "roundings n r x" and "n \<le> n'" and "0 \<le> x"
  shows "roundings n' r x"
proof -
  have "(1 - unit_roundoff) ^ n' \<le> (1 - unit_roundoff) ^ n"
    using assms(2) unit_roundoff_bounds by (intro power_decreasing) simp_all
  then have "x * (1 - unit_roundoff) ^ n' \<le> x * (1 - unit_roundoff) ^ n"
    using assms(3) by (rule mult_left_mono)
  moreover have "(1 + unit_roundoff) ^ n \<le> (1 + unit_roundoff) ^ n'"
    using assms(2) unit_roundoff_bounds by (intro power_increasing) simp_all
  then have "x * (1 + unit_roundoff) ^ n \<le> x * (1 + unit_roundoff) ^ n'"
    using assms(3) by (rule mult_left_mono)
  ultimately show ?thesis
    using assms(1) unfolding roundings_def by linarith
qed

lemma roundings_refl: "0 \<le> x \<Longrightarrow> roundings n x x"
proof -
  assume x: "0 \<le> x"
  have "x * (1 - unit_roundoff) ^ n \<le> x * 1"
    using x factors(2) by (rule mult_left_mono [rotated])
  moreover have "x * 1 \<le> x * (1 + unit_roundoff) ^ n"
    using x factors(3) by (rule mult_left_mono [rotated])
  ultimately show ?thesis
    unfolding roundings_def by simp
qed

lemma roundings_zero: "roundings n r 0 \<longleftrightarrow> r = 0"
  by (auto simp: roundings_def)

lemma roundings_nonneg: "roundings n r x \<Longrightarrow> 0 \<le> x \<Longrightarrow> 0 \<le> r"
proof -
  assume "roundings n r x" and x: "0 \<le> x"
  then have "x * (1 - unit_roundoff) ^ n \<le> r"
    by (simp add: roundings_def)
  moreover have "0 \<le> x * (1 - unit_roundoff) ^ n"
    using x factors(1) [of n] by simp
  ultimately show ?thesis
    by linarith
qed

lemma roundings_add:
  "roundings n r x \<Longrightarrow> roundings n s y \<Longrightarrow> roundings n (r + s) (x + y)"
  by (simp add: roundings_def distrib_right)

lemma roundings_mult:
  assumes "roundings n r x" and "roundings n' s y" and "0 \<le> x" and "0 \<le> y"
  shows "roundings (n + n') (r * s) (x * y)"
proof -
  have r: "0 \<le> r" and s: "0 \<le> s"
    using assms by (auto intro: roundings_nonneg)
  have nn: "0 \<le> x * (1 - unit_roundoff) ^ n" "0 \<le> y * (1 - unit_roundoff) ^ n'"
    using assms(3,4) factors(1) [of n] factors(1) [of n'] by simp_all
  have lo: "(x * (1 - unit_roundoff) ^ n) * (y * (1 - unit_roundoff) ^ n') \<le> r * s"
    using assms(1,2) nn r unfolding roundings_def
    by (intro mult_mono) simp_all
  have hi: "r * s \<le> (x * (1 + unit_roundoff) ^ n) * (y * (1 + unit_roundoff) ^ n')"
  proof (rule mult_mono)
    show "r \<le> x * (1 + unit_roundoff) ^ n" "s \<le> y * (1 + unit_roundoff) ^ n'"
      using assms(1,2) by (simp_all add: roundings_def)
    then show "0 \<le> x * (1 + unit_roundoff) ^ n"
      using r by linarith
    show "0 \<le> s"
      by (rule s)
  qed
  from lo hi show ?thesis
    unfolding roundings_def by (simp add: power_add mult_ac)
qed

lemma roundings_div:
  "roundings n r x \<Longrightarrow> 0 < c \<Longrightarrow> roundings n (r / c) (x / c)"
  by (simp add: roundings_def divide_right_mono)

lemma sqrt_le_self: "1 \<le> t \<Longrightarrow> sqrt t \<le> t"
proof -
  assume t: "1 \<le> t"
  have "sqrt t * 1 \<le> sqrt t * sqrt t"
    using t by (intro mult_left_mono) simp_all
  then show ?thesis
    using t by simp
qed

lemma sqrt_ge_self: "0 \<le> t \<Longrightarrow> t \<le> 1 \<Longrightarrow> t \<le> sqrt t"
proof -
  assume t: "0 \<le> t" "t \<le> 1"
  then have "sqrt t * sqrt t \<le> sqrt t * 1"
    by (intro mult_left_mono) simp_all
  then show ?thesis
    using t by simp
qed

lemma roundings_sqrt:
  assumes "roundings n r x" and "0 \<le> x"
  shows "roundings n (sqrt r) (sqrt x)"
proof -
  have "sqrt x * (1 - unit_roundoff) ^ n \<le> sqrt x * sqrt ((1 - unit_roundoff) ^ n)"
    using factors(1,2) [of n] assms(2)
    by (intro mult_left_mono sqrt_ge_self) simp_all
  also have "\<dots> = sqrt (x * (1 - unit_roundoff) ^ n)"
    by (simp add: real_sqrt_mult)
  also have "\<dots> \<le> sqrt r"
    using assms(1) by (simp add: roundings_def)
  finally have lo: "sqrt x * (1 - unit_roundoff) ^ n \<le> sqrt r" .
  have "sqrt r \<le> sqrt (x * (1 + unit_roundoff) ^ n)"
    using assms(1) by (simp add: roundings_def)
  also have "\<dots> = sqrt x * sqrt ((1 + unit_roundoff) ^ n)"
    by (simp add: real_sqrt_mult)
  also have "\<dots> \<le> sqrt x * (1 + unit_roundoff) ^ n"
    using factors(3) [of n] assms(2)
    by (intro mult_left_mono sqrt_le_self) simp_all
  finally have hi: "sqrt r \<le> sqrt x * (1 + unit_roundoff) ^ n" .
  from lo hi show ?thesis
    by (simp add: roundings_def)
qed

lemma roundings_bounds:
  assumes "roundings n r x" and "n \<le> 2 ^ 33" and "0 \<le> x"
  shows "x / 2 \<le> r" and "r \<le> 2 * x"
proof -
  have "x * (1 / 2) \<le> x * (1 - unit_roundoff) ^ n"
    using assms(3) factors_bounded(1) [OF assms(2)] by (intro mult_left_mono)
  with assms(1) show "x / 2 \<le> r"
    by (simp add: roundings_def)
  have "x * (1 + unit_roundoff) ^ n \<le> x * 2"
    using assms(3) factors_bounded(2) [OF assms(2)] by (intro mult_left_mono)
  with assms(1) show "r \<le> 2 * x"
    by (simp add: roundings_def)
qed

lemma round64_within:
  assumes "y = 0 \<or> 1 / 2 ^ 1022 \<le> y"
  shows "y * (1 - unit_roundoff) \<le> round64 y" and "round64 y \<le> y * (1 + unit_roundoff)"
proof -
  have "\<bar>round64 y - y\<bar> \<le> y * unit_roundoff"
  proof (cases "y = 0")
    case True
    then show ?thesis
      by (simp add: round64_0)
  next
    case False
    with assms have y: "1 / 2 ^ 1022 \<le> y"
      by simp
    then have "0 \<le> y"
      by (rule order_trans [rotated]) simp
    then have "\<bar>y\<bar> = y"
      by simp
    with round64_error [of y] y show ?thesis
      by (simp add: unit_roundoff_def)
  qed
  then show "y * (1 - unit_roundoff) \<le> round64 y" and "round64 y \<le> y * (1 + unit_roundoff)"
    by (simp_all add: algebra_simps abs_le_iff)
qed

lemma roundings_round:
  assumes "roundings n y x" and "0 \<le> x" and "y = 0 \<or> 1 / 2 ^ 1022 \<le> y"
  shows "roundings (Suc n) (round64 y) x"
proof -
  have lo: "x * (1 - unit_roundoff) ^ n * (1 - unit_roundoff) \<le> y * (1 - unit_roundoff)"
    using assms(1) unit_roundoff_bounds unfolding roundings_def
    by (intro mult_right_mono) simp_all
  have hi: "y * (1 + unit_roundoff) \<le> x * (1 + unit_roundoff) ^ n * (1 + unit_roundoff)"
    using assms(1) unit_roundoff_bounds unfolding roundings_def
    by (intro mult_right_mono) simp_all
  from lo hi round64_within [OF assms(3)] show ?thesis
    unfolding roundings_def by (simp add: mult_ac)
qed

lemma rounded_in_range:
  assumes "roundings n y x" and "n < 2 ^ 33" and "x = 0 \<or> 1 / 2 ^ 1021 \<le> x" and "x \<le> 2 ^ 1022"
  shows "rounded (Num y) = Num (round64 y)" and "roundings (Suc n) (round64 y) x"
proof -
  have c: "(0::real) \<le> 1 / 2 ^ 1021"
    by simp
  have x: "0 \<le> x"
    using assms(3) c by auto
  have n: "n \<le> 2 ^ 33" "Suc n \<le> 2 ^ 33"
    using assms(2) by simp_all
  have normal: "y = 0 \<or> 1 / 2 ^ 1022 \<le> y"
  proof (cases "x = 0")
    case True
    with assms(1) show ?thesis
      by (simp add: roundings_zero)
  next
    case False
    with assms(3) have "1 / 2 ^ 1021 \<le> x"
      by simp
    then have "1 / 2 ^ 1021 / 2 \<le> x / 2"
      by (rule divide_right_mono) simp
    also have "\<dots> \<le> y"
      using assms(1) n(1) x by (rule roundings_bounds)
    finally have "1 / 2 ^ 1021 / 2 \<le> y" .
    moreover have "(1::real) / 2 ^ 1022 \<le> 1 / 2 ^ 1021 / 2"
      by simp
    ultimately show ?thesis
      by linarith
  qed
  show r: "roundings (Suc n) (round64 y) x"
    using assms(1) x normal by (rule roundings_round)
  have "round64 y \<le> 2 * x"
    using r n(2) x by (rule roundings_bounds)
  also have "\<dots> \<le> 2 * 2 ^ 1022"
    using assms(4) by simp
  also have "\<dots> = 2 ^ 1023"
    by simp
  finally have "round64 y < overflow_threshold"
    using threshold_above by linarith
  moreover have "0 \<le> round64 y"
    using r x by (rule roundings_nonneg)
  ultimately have "\<bar>round64 y\<bar> < overflow_threshold"
    by simp
  then show "rounded (Num y) = Num (round64 y)"
    by (simp add: overflowed_Num)
qed

text \<open>The squares, their sum, the mean and the root that \<open>RMSE\<close> computes.\<close>

lemma below_threshold:
  fixes d :: real
  assumes "d ^ 2 \<le> 2 ^ 1023"
  shows "\<bar>d\<bar> < overflow_threshold"
proof (cases "\<bar>d\<bar> \<le> 1")
  case True
  have "(1::real) \<le> 2 ^ 1023"
    by simp
  with True threshold_above show ?thesis
    by linarith
next
  case False
  then have "\<bar>d\<bar> * 1 \<le> \<bar>d\<bar> * \<bar>d\<bar>"
    by (intro mult_left_mono) auto
  then have "\<bar>d\<bar> \<le> d ^ 2"
    by (simp add: power2_eq_square)
  with assms threshold_above show ?thesis
    by linarith
qed

lemma square_of_rounded:
  assumes "t = 0 \<or> 1 / 2 ^ 1022 \<le> \<bar>t\<bar>"
  shows "roundings 2 ((round64 t) ^ 2) (t ^ 2)"
proof (cases "t = 0")
  case True
  then show ?thesis
    by (simp add: round64_0 roundings_zero)
next
  case False
  with assms have "1 / 2 ^ 1022 \<le> \<bar>t\<bar>"
    by simp
  from round64_error [OF this] have e: "\<bar>round64 t - t\<bar> \<le> \<bar>t\<bar> * unit_roundoff"
    by (simp add: unit_roundoff_def)
  have "roundings 1 \<bar>round64 t\<bar> \<bar>t\<bar>"
    unfolding roundings_def using e by (simp add: algebra_simps) linarith
  from roundings_mult [OF this this] have "roundings (1 + 1) (\<bar>round64 t\<bar> * \<bar>round64 t\<bar>) (\<bar>t\<bar> * \<bar>t\<bar>)"
    by simp
  moreover have "(1::nat) + 1 = 2"
    by simp
  ultimately have "roundings 2 (\<bar>round64 t\<bar> * \<bar>round64 t\<bar>) (\<bar>t\<bar> * \<bar>t\<bar>)"
    by (simp only:)
  then show ?thesis
    by (simp add: power2_eq_square del: One_nat_def)
qed

lemma squared_deviation:
  assumes "t = 0 \<or> 1 / 2 ^ 490 \<le> \<bar>t\<bar>" and "t ^ 2 \<le> 2 ^ 1022"
  shows "\<bar>round64 t\<bar> < overflow_threshold"
    and "\<bar>round64 ((round64 t) ^ 2)\<bar> < overflow_threshold"
    and "roundings 3 (round64 ((round64 t) ^ 2)) (t ^ 2)"
proof -
  let ?d = "round64 t"
  have normal: "t = 0 \<or> 1 / 2 ^ 1022 \<le> \<bar>t\<bar>"
  proof (cases "t = 0")
    case False
    with assms(1) have "1 / 2 ^ 490 \<le> \<bar>t\<bar>"
      by simp
    moreover have "(1::real) / 2 ^ 1022 \<le> 1 / 2 ^ 490"
      by simp
    ultimately show ?thesis
      by linarith
  qed simp
  have two: "roundings 2 (?d ^ 2) (t ^ 2)"
    using normal by (rule square_of_rounded)
  have n2: "(2::nat) \<le> 2 ^ 33" and n3: "Suc 2 \<le> 2 ^ 33"
    by simp_all
  have sq: "0 \<le> t ^ 2"
    by simp
  have d2: "?d ^ 2 = 0 \<or> 1 / 2 ^ 1022 \<le> ?d ^ 2"
  proof (cases "t = 0")
    case True
    then show ?thesis
      by (simp add: round64_0)
  next
    case False
    with assms(1) have "1 / 2 ^ 490 \<le> \<bar>t\<bar>"
      by simp
    then have "(1 / 2 ^ 490) ^ 2 \<le> \<bar>t\<bar> ^ 2"
      by (intro power_mono) simp_all
    then have "1 / 2 ^ 980 \<le> t ^ 2"
      by (simp add: power_divide)
    then have "1 / 2 ^ 980 / 2 \<le> t ^ 2 / 2"
      by (rule divide_right_mono) simp
    also have "t ^ 2 / 2 \<le> ?d ^ 2"
      using two n2 sq by (rule roundings_bounds)
    finally have "1 / 2 ^ 980 / 2 \<le> ?d ^ 2" .
    moreover have "(1::real) / 2 ^ 1022 \<le> 1 / 2 ^ 980 / 2"
      by simp
    ultimately show ?thesis
      by linarith
  qed
  have "?d ^ 2 \<le> 2 * t ^ 2"
    using two n2 sq by (rule roundings_bounds)
  also have "\<dots> \<le> 2 * 2 ^ 1022"
    using assms(2) by simp
  also have "\<dots> = 2 ^ 1023"
    by simp
  finally show "\<bar>?d\<bar> < overflow_threshold"
    by (rule below_threshold)
  show three: "roundings 3 (round64 (?d ^ 2)) (t ^ 2)"
    using roundings_round [OF two sq d2] by (simp add: numeral_3_eq_3)
  then have "roundings (Suc 2) (round64 (?d ^ 2)) (t ^ 2)"
    by (simp add: numeral_3_eq_3)
  from roundings_bounds(2) [OF this n3 sq] have "round64 (?d ^ 2) \<le> 2 * t ^ 2" .
  also have "\<dots> \<le> 2 * 2 ^ 1022"
    using assms(2) by simp
  also have "\<dots> = 2 ^ 1023"
    by simp
  finally have "round64 (?d ^ 2) < overflow_threshold"
    using threshold_above by linarith
  moreover have "0 \<le> round64 (?d ^ 2)"
    by (rule round64_nonneg) simp
  ultimately show "\<bar>round64 (?d ^ 2)\<bar> < overflow_threshold"
    by simp
qed

lemma squared_errors_rounded:
  assumes "k = PyFloat \<or> k = NpFloat64"
    and "\<forall>e \<in> set es. (e = a \<or> 1 / 2 ^ 490 \<le> \<bar>e - a\<bar>) \<and> (e - a) ^ 2 \<le> 2 ^ 1022"
  shows "squared_errors (map (\<lambda>e. k (Num e)) es) (PyFloat (Num a)) =
           Inr (map (\<lambda>e. k (Num (round64 ((round64 (e - a)) ^ 2)))) es)"
  using assms(2)
proof (induction es)
  case Nil
  then show ?case by simp
next
  case (Cons e es)
  then have h: "e - a = 0 \<or> 1 / 2 ^ 490 \<le> \<bar>e - a\<bar>" "(e - a) ^ 2 \<le> 2 ^ 1022"
    and rest: "\<forall>e \<in> set es. (e = a \<or> 1 / 2 ^ 490 \<le> \<bar>e - a\<bar>) \<and> (e - a) ^ 2 \<le> 2 ^ 1022"
    by auto
  note d = squared_deviation [OF h]
  have sub: "f64_sub (Num e) (Num a) = Num (round64 (e - a))"
    by (simp add: f64_sub_def overflowed_Num [OF d(1)])
  have no: "\<not> overflow_threshold \<le> round64 ((round64 (e - a)) ^ 2)"
    using d(2) by simp
  have sq: "py_pow2 (k (Num (round64 (e - a)))) =
            Inr (k (Num (round64 ((round64 (e - a)) ^ 2))))"
    using assms(1) no by (auto simp: overflowed_Num [OF d(2)])
  have "py_sub (k (Num e)) (PyFloat (Num a)) = k (Num (round64 (e - a)))"
    using assms(1) by (auto simp: sub)
  then show ?case
    using Cons.IH [OF rest] by (simp add: sq)
qed

lemma sum_roundings:
  assumes "\<forall>e \<in> set es. roundings 3 (f e) (g e) \<and> (g e = 0 \<or> 1 / 2 ^ 980 \<le> g e)"
    and "roundings p acc A" and "A = 0 \<or> 1 / 2 ^ 980 \<le> A"
    and "3 \<le> p" and "p + length es \<le> 2 ^ 33"
    and "A + (\<Sum>e\<leftarrow>es. g e) \<le> 2 ^ 1022"
  shows "\<exists>r. f64_sum_from (Num acc) (map (\<lambda>e. Num (f e)) es) = Num r \<and>
             roundings (p + length es) r (A + (\<Sum>e\<leftarrow>es. g e))"
  using assms
proof (induction es arbitrary: acc A p)
  case Nil
  then show ?case by simp
next
  case (Cons e es)
  have c: "(0::real) \<le> 1 / 2 ^ 980"
    by simp
  have A: "0 \<le> A" and ge: "0 \<le> g e"
    using Cons.prems(1,3) c by auto
  have rest_nn: "0 \<le> (\<Sum>e\<leftarrow>es. g e)"
    using Cons.prems(1) c by (intro sum_list_nonneg) auto
  have fe: "roundings 3 (f e) (g e)"
    using Cons.prems(1) by simp
  have y: "roundings p (acc + f e) (A + g e)"
    using Cons.prems(2) roundings_mono [OF fe Cons.prems(4) ge] by (rule roundings_add)
  have p: "p \<le> 2 ^ 33" "Suc p \<le> 2 ^ 33"
    using Cons.prems(5) by simp_all
  have Ag: "A + g e = 0 \<or> 1 / 2 ^ 980 \<le> A + g e"
    using Cons.prems(1,3) A ge by auto
  have nn: "0 \<le> A + g e"
    using A ge by simp
  have normal: "acc + f e = 0 \<or> 1 / 2 ^ 1022 \<le> acc + f e"
  proof (cases "A + g e = 0")
    case True
    with y show ?thesis
      by (simp add: roundings_zero)
  next
    case False
    with Ag have "1 / 2 ^ 980 \<le> A + g e"
      by simp
    then have "1 / 2 ^ 980 / 2 \<le> (A + g e) / 2"
      by (rule divide_right_mono) simp
    also have "\<dots> \<le> acc + f e"
      using y p(1) nn by (rule roundings_bounds)
    finally have "1 / 2 ^ 980 / 2 \<le> acc + f e" .
    moreover have "(1::real) / 2 ^ 1022 \<le> 1 / 2 ^ 980 / 2"
      by simp
    ultimately show ?thesis
      by linarith
  qed
  have r: "roundings (Suc p) (round64 (acc + f e)) (A + g e)"
    using y nn normal by (rule roundings_round)
  have total: "A + g e + (\<Sum>e\<leftarrow>es. g e) \<le> 2 ^ 1022"
    using Cons.prems(6) by (simp add: add.assoc)
  have "round64 (acc + f e) \<le> 2 * (A + g e)"
    using r p(2) nn by (rule roundings_bounds)
  also have "\<dots> \<le> 2 * 2 ^ 1022"
    using total rest_nn by simp
  also have "\<dots> = 2 ^ 1023"
    by simp
  finally have "round64 (acc + f e) < overflow_threshold"
    using threshold_above by linarith
  moreover have "0 \<le> round64 (acc + f e)"
    using r nn by (rule roundings_nonneg)
  ultimately have "\<bar>round64 (acc + f e)\<bar> < overflow_threshold"
    by simp
  then have step: "f64_add (Num acc) (Num (f e)) = Num (round64 (acc + f e))"
    by (simp add: f64_add_def overflowed_Num)
  have "\<exists>r. f64_sum_from (Num (round64 (acc + f e))) (map (\<lambda>e. Num (f e)) es) = Num r \<and>
             roundings (Suc p + length es) r (A + g e + (\<Sum>e\<leftarrow>es. g e))"
  proof (rule Cons.IH)
    show "\<forall>e \<in> set es. roundings 3 (f e) (g e) \<and> (g e = 0 \<or> 1 / 2 ^ 980 \<le> g e)"
      using Cons.prems(1) by simp
    show "roundings (Suc p) (round64 (acc + f e)) (A + g e)"
      by (rule r)
    show "A + g e = 0 \<or> 1 / 2 ^ 980 \<le> A + g e"
      by (rule Ag)
    show "3 \<le> Suc p"
      using Cons.prems(4) by simp
    show "Suc p + length es \<le> 2 ^ 33"
      using Cons.prems(5) by simp
    show "A + g e + (\<Sum>e\<leftarrow>es. g e) \<le> 2 ^ 1022"
      by (rule total)
  qed
  then show ?case
    by (simp add: step add.assoc)
qed

lemma sum_list_zero_or_large:
  fixes xs :: "real list"
  assumes "\<forall>x \<in> set xs. x = 0 \<or> c \<le> x" and "0 \<le> c"
  shows "sum_list xs = 0 \<or> c \<le> sum_list xs"
  using assms(1)
proof (induction xs)
  case Nil
  then show ?case by simp
next
  case (Cons x xs)
  then have "x = 0 \<or> c \<le> x" and "sum_list xs = 0 \<or> c \<le> sum_list xs"
    by simp_all
  with assms(2) show ?case
    by auto
qed

lemma member_le_sum_list_nonneg:
  fixes xs :: "real list"
  assumes "\<forall>x \<in> set xs. 0 \<le> x" and "x \<in> set xs"
  shows "x \<le> sum_list xs"
  using assms
proof (induction xs)
  case Nil
  then show ?case by simp
next
  case (Cons y ys)
  have "0 \<le> sum_list ys"
    using Cons.prems(1) by (intro sum_list_nonneg) auto
  with Cons show ?case
    by auto
qed

lemma sqrt_between:
  assumes "c \<le> y" and "y \<le> b" and "0 \<le> c" and "c \<le> 1" and "1 \<le> b"
  shows "c \<le> sqrt y" and "sqrt y \<le> b"
proof -
  have y: "0 \<le> y"
    using assms(1,3) by linarith
  show "c \<le> sqrt y"
  proof (cases "y \<le> 1")
    case True
    with y have "y \<le> sqrt y"
      by (rule sqrt_ge_self)
    with assms(1) show ?thesis
      by linarith
  next
    case False
    then have "1 \<le> sqrt y"
      by simp
    with assms(4) show ?thesis
      by linarith
  qed
  show "sqrt y \<le> b"
  proof (cases "1 \<le> y")
    case True
    then have "sqrt y \<le> y"
      by (rule sqrt_le_self)
    with assms(2) show ?thesis
      by linarith
  next
    case False
    then have "sqrt y \<le> 1"
      by simp
    with assms(5) show ?thesis
      by linarith
  qed
qed

lemma deviations_in_range:
  fixes a :: real
  assumes "\<forall>e \<in> set es. e = a \<or> 1 / 2 ^ 490 \<le> \<bar>e - a\<bar>"
    and "(\<Sum>e\<leftarrow>es. (e - a) ^ 2) \<le> 2 ^ 1022"
  shows "\<forall>e \<in> set es. (e = a \<or> 1 / 2 ^ 490 \<le> \<bar>e - a\<bar>) \<and> (e - a) ^ 2 \<le> 2 ^ 1022"
proof
  fix e assume e: "e \<in> set es"
  let ?sq = "map (\<lambda>e. (e - a) ^ 2) es"
  have "\<forall>x \<in> set ?sq. 0 \<le> x"
    by auto
  moreover have "(e - a) ^ 2 \<in> set ?sq"
    using e by auto
  ultimately have "(e - a) ^ 2 \<le> sum_list ?sq"
    by (rule member_le_sum_list_nonneg)
  with assms e show "(e = a \<or> 1 / 2 ^ 490 \<le> \<bar>e - a\<bar>) \<and> (e - a) ^ 2 \<le> 2 ^ 1022"
    by auto
qed

lemma squares_zero_or_large:
  fixes t :: real
  assumes "t = 0 \<or> 1 / 2 ^ 490 \<le> \<bar>t\<bar>"
  shows "t ^ 2 = 0 \<or> 1 / 2 ^ 980 \<le> t ^ 2"
proof (cases "t = 0")
  case True
  then show ?thesis by simp
next
  case False
  with assms have "1 / 2 ^ 490 \<le> \<bar>t\<bar>"
    by simp
  then have "(1 / 2 ^ 490) ^ 2 \<le> \<bar>t\<bar> ^ 2"
    by (intro power_mono) simp_all
  then show ?thesis
    by (simp add: power_divide)
qed

lemma RMSE_value:
  assumes "k = PyFloat \<or> k = NpFloat64"
    and "\<forall>e \<in> set es. e = a \<or> 1 / 2 ^ 490 \<le> \<bar>e - a\<bar>"
    and "(\<Sum>e\<leftarrow>es. (e - a) ^ 2) \<le> 2 ^ 1022"
  shows "RMSE (map (\<lambda>e. k (Num e)) es) (PyFloat (Num a)) =
         Inr (f64_sqrt (f64_mean (map (\<lambda>e. Num (round64 ((round64 (e - a)) ^ 2))) es)))"
proof -
  have v: "map py_value (map (\<lambda>e. k (Num (round64 ((round64 (e - a)) ^ 2)))) es) =
           map (\<lambda>e. Num (round64 ((round64 (e - a)) ^ 2))) es"
    using assms(1) by auto
  show ?thesis
    unfolding RMSE_def squared_errors_rounded [OF assms(1) deviations_in_range [OF assms(2,3)]]
      sum.case Let_def v ..
qed

lemma root_mean_rounded:
  assumes "es \<noteq> []" and "length es \<le> 2 ^ 32"
    and "\<forall>e \<in> set es. e = a \<or> 1 / 2 ^ 490 \<le> \<bar>e - a\<bar>"
    and "(\<Sum>e\<leftarrow>es. (e - a) ^ 2) \<le> 2 ^ 1022"
  shows "\<exists>r. f64_sqrt (f64_mean (map (\<lambda>e. Num (round64 ((round64 (e - a)) ^ 2))) es)) = Num r \<and>
             roundings (length es + 5) r (sqrt ((1 / real (length es)) * (\<Sum>e\<leftarrow>es. (e - a) ^ 2)))"
proof -
  let ?f = "\<lambda>e. round64 ((round64 (e - a)) ^ 2)"
  let ?g = "\<lambda>e. (e - a) ^ 2"
  let ?X = "\<Sum>e\<leftarrow>es. (e - a) ^ 2"
  let ?m = "real (length es)"
  note each = deviations_in_range [OF assms(3,4)]
  have m: "1 \<le> ?m" "0 < ?m"
    using assms(1) by (cases es; simp)+
  have m32: "?m \<le> 2 ^ 32"
    using assms(2) by (metis of_nat_le_iff of_nat_numeral of_nat_power)
  have len: "3 + length es \<le> 2 ^ 33" "3 + length es < 2 ^ 33" "Suc (3 + length es) < 2 ^ 33"
    using assms(2) by simp_all
  have elems: "\<forall>e \<in> set es. roundings 3 (?f e) (?g e) \<and> (?g e = 0 \<or> 1 / 2 ^ 980 \<le> ?g e)"
  proof
    fix e assume "e \<in> set es"
    with each have h: "e - a = 0 \<or> 1 / 2 ^ 490 \<le> \<bar>e - a\<bar>" "(e - a) ^ 2 \<le> 2 ^ 1022"
      by auto
    from squared_deviation(3) [OF h] squares_zero_or_large [OF h(1)]
    show "roundings 3 (?f e) (?g e) \<and> (?g e = 0 \<or> 1 / 2 ^ 980 \<le> ?g e)"
      by simp
  qed
  have "\<exists>S. f64_sum_from (Num 0) (map (\<lambda>e. Num (?f e)) es) = Num S \<and>
             roundings (3 + length es) S (0 + (\<Sum>e\<leftarrow>es. ?g e))"
    using elems
  proof (rule sum_roundings)
    show "roundings 3 0 0"
      by (simp add: roundings_zero)
    show "(0::real) = 0 \<or> 1 / 2 ^ 980 \<le> (0::real)"
      by simp
    show "(3::nat) \<le> 3"
      by simp
    show "3 + length es \<le> 2 ^ 33"
      by (rule len)
    show "0 + (\<Sum>e\<leftarrow>es. ?g e) \<le> 2 ^ 1022"
      using assms(4) by simp
  qed
  then obtain S where S: "f64_sum_from (Num 0) (map (\<lambda>e. Num (?f e)) es) = Num S"
    and rS: "roundings (3 + length es) S ?X"
    by auto
  have X: "?X = 0 \<or> 1 / 2 ^ 980 \<le> ?X"
    using sum_list_zero_or_large [of "map ?g es" "1 / 2 ^ 980"] elems by simp
  have c: "(0::real) \<le> 1 / 2 ^ 980" "(0::real) \<le> 1 / 2 ^ 1012"
    by simp_all
  have X0: "0 \<le> ?X"
    using X c(1) by auto
  text \<open>the mean\<close>
  have mean_small: "?X / ?m = 0 \<or> 1 / 2 ^ 1012 \<le> ?X / ?m"
  proof (cases "?X = 0")
    case True
    then show ?thesis by simp
  next
    case False
    with X have "1 / 2 ^ 980 \<le> ?X"
      by simp
    then have "1 / 2 ^ 980 / 2 ^ 32 \<le> ?X / ?m"
      using m32 m(2) by (intro frac_le) simp_all
    moreover have "(1::real) / 2 ^ 1012 = 1 / 2 ^ 980 / 2 ^ 32"
      by simp
    ultimately show ?thesis
      by simp
  qed
  have "?X / ?m \<le> ?X / 1"
    using X0 m(1) assms(1) by (intro divide_left_mono) simp_all
  then have mean_big: "?X / ?m \<le> 2 ^ 1022"
    using assms(4) by simp
  have mean0: "0 \<le> ?X / ?m"
    using X0 m(2) by simp
  have rq: "roundings (3 + length es) (S / ?m) (?X / ?m)"
    using rS m(2) by (rule roundings_div)
  have small': "?X / ?m = 0 \<or> 1 / 2 ^ 1021 \<le> ?X / ?m"
  proof (cases "?X / ?m = 0")
    case False
    with mean_small have "1 / 2 ^ 1012 \<le> ?X / ?m"
      by simp
    moreover have "(1::real) / 2 ^ 1021 \<le> 1 / 2 ^ 1012"
      by simp
    ultimately show ?thesis
      by linarith
  qed simp
  note M = rounded_in_range [OF rq len(2) small' mean_big]
  have mean: "f64_mean (map (\<lambda>e. Num (?f e)) es) = Num (round64 (S / ?m))"
    using m(2) M(1) by (simp add: f64_mean_def S f64_div_def)
  have M0: "0 \<le> round64 (S / ?m)"
    using M(2) mean0 by (rule roundings_nonneg)
  text \<open>the root\<close>
  let ?R = "sqrt (?X / ?m)"
  have rr: "roundings (Suc (3 + length es)) (sqrt (round64 (S / ?m))) ?R"
    using M(2) mean0 by (rule roundings_sqrt)
  have root_small: "?R = 0 \<or> 1 / 2 ^ 1021 \<le> ?R"
  proof (cases "?X / ?m = 0")
    case True
    then show ?thesis by simp
  next
    case False
    with mean_small have "1 / 2 ^ 1012 \<le> ?X / ?m"
      by simp
    from sqrt_between(1) [OF this mean_big] have "1 / 2 ^ 1012 \<le> ?R"
      by simp
    moreover have "(1::real) / 2 ^ 1021 \<le> 1 / 2 ^ 1012"
      by simp
    ultimately show ?thesis
      by linarith
  qed
  have root_big: "?R \<le> 2 ^ 1022"
  proof (cases "?X / ?m = 0")
    case True
    then have "?R = 0"
      by (simp only: real_sqrt_zero)
    then show ?thesis
      by (simp only:) simp
  next
    case False
    with mean_small have "1 / 2 ^ 1012 \<le> ?X / ?m"
      by simp
    from sqrt_between(2) [OF this mean_big] show ?thesis
      by simp
  qed
  note R = rounded_in_range [OF rr len(3) root_small root_big]
  have root: "f64_sqrt (Num (round64 (S / ?m))) = Num (round64 (sqrt (round64 (S / ?m))))"
    using M0 R(1) by (simp add: f64_sqrt_def)
  have "Suc (Suc (3 + length es)) = length es + 5"
    by simp
  with R(2) have "roundings (length es + 5) (round64 (sqrt (round64 (S / ?m)))) ?R"
    by (simp only:)
  then have "roundings (length es + 5) (round64 (sqrt (round64 (S / ?m))))
               (sqrt ((1 / ?m) * ?X))"
    by (simp only: times_divide_eq_left mult_1)
  with root show ?thesis
    unfolding mean by blast
qed

section \<open>When a summary raises, and the sign of what it returns\<close>

lemma py_pow2_raises: "py_pow2 d = Inl e \<longleftrightarrow> square_overflows d \<and> e = OverflowError"
  by (cases d rule: square_overflows.cases) auto

lemma squared_errors_raises:
  "squared_errors es a = Inl e \<longleftrightarrow>
   list_ex (\<lambda>x. square_overflows (py_sub x a)) es \<and> e = OverflowError"
proof (induction es)
  case Nil
  then show ?case by simp
next
  case (Cons x es)
  show ?case
  proof (cases "py_pow2 (py_sub x a)")
    case (Inl e')
    then show ?thesis
      using py_pow2_raises [of "py_sub x a" e'] by auto
  next
    case (Inr s)
    then have "\<not> square_overflows (py_sub x a)"
      using py_pow2_raises [of "py_sub x a" OverflowError] by auto
    with Inr Cons.IH show ?thesis
      by (auto split: sum.splits)
  qed
qed

lemma RMSE_raises:
  "RMSE es a = Inl e \<longleftrightarrow>
   list_ex (\<lambda>x. square_overflows (py_sub x a)) es \<and> e = OverflowError"
  using squared_errors_raises [of es a e]
  by (auto simp: RMSE_def Let_def split: sum.splits)

lemma np_scalars_never_raise:
  "\<not> list_ex (\<lambda>x. square_overflows (py_sub x a)) (map (\<lambda>e. NpFloat64 (Num e)) es)"
  by (induction es) (auto simp: list_ex_iff)

lemma rounded_nonneg: "np_ge x (Num 0) \<Longrightarrow> np_ge (rounded x) (Num 0)"
proof (cases x)
  case (Num r)
  assume "np_ge x (Num 0)"
  with Num have "0 \<le> round64 r"
    by (simp add: round64_nonneg)
  with threshold_pos have "\<not> round64 r \<le> - overflow_threshold"
    by linarith
  with \<open>0 \<le> round64 r\<close> Num show ?thesis
    by (simp add: overflowed_def)
qed simp_all

lemma py_pow2_nonneg:
  assumes "py_value d \<noteq> NaN" and "py_pow2 d = Inr s"
  shows "np_ge (py_value s) (Num 0)"
proof (cases d)
  case (PyFloat x)
  with assms show ?thesis
    by (cases x) (auto simp: round64_nonneg split: if_splits)
next
  case (NpFloat64 x)
  have "np_ge (np_pow2 x) (Num 0)"
    using assms(1) NpFloat64 by (cases x) auto
  then have "np_ge (rounded (np_pow2 x)) (Num 0)"
    by (rule rounded_nonneg)
  with assms(2) NpFloat64 show ?thesis
    by auto
qed

lemma py_sub_not_NaN: "py_value (py_sub (k (Num e)) (PyFloat (Num a))) \<noteq> NaN"
  if "k = PyFloat \<or> k = NpFloat64"
  using that by (auto simp: f64_sub_def overflowed_not_NaN)

lemma squared_errors_nonneg:
  assumes "k = PyFloat \<or> k = NpFloat64"
    and "squared_errors (map (\<lambda>e. k (Num e)) es) (PyFloat (Num a)) = Inr e2"
  shows "\<forall>s \<in> set e2. np_ge (py_value s) (Num 0)"
  using assms(2)
proof (induction es arbitrary: e2)
  case Nil
  then show ?case by simp
next
  case (Cons e es)
  from Cons.prems obtain s rest
    where s: "py_pow2 (py_sub (k (Num e)) (PyFloat (Num a))) = Inr s"
      and rest: "squared_errors (map (\<lambda>e. k (Num e)) es) (PyFloat (Num a)) = Inr rest"
      and e2: "e2 = s # rest"
    by (auto split: sum.splits)
  have "np_ge (py_value s) (Num 0)"
    using py_sub_not_NaN [OF assms(1)] s by (rule py_pow2_nonneg)
  with Cons.IH [OF rest] e2 show ?case
    by simp
qed

lemma np_add_nonneg:
  "np_ge a (Num 0) \<Longrightarrow> np_ge b (Num 0) \<Longrightarrow> np_ge (np_add a b) (Num 0)"
  by (cases a; cases b) auto

lemma f64_add_nonneg:
  "np_ge a (Num 0) \<Longrightarrow> np_ge b (Num 0) \<Longrightarrow> np_ge (f64_add a b) (Num 0)"
  unfolding f64_add_def by (intro rounded_nonneg np_add_nonneg)

lemma f64_sum_from_nonneg:
  "np_ge acc (Num 0) \<Longrightarrow> \<forall>x \<in> set xs. np_ge x (Num 0) \<Longrightarrow>
   np_ge (f64_sum_from acc xs) (Num 0)"
  by (induction xs arbitrary: acc) (simp_all add: f64_add_nonneg)

lemma f64_mean_nonneg:
  assumes "xs \<noteq> []" and "\<forall>x \<in> set xs. np_ge x (Num 0)"
  shows "np_ge (f64_mean xs) (Num 0)"
proof -
  have s: "np_ge (f64_sum_from (Num 0) xs) (Num 0)"
    using assms(2) by (intro f64_sum_from_nonneg) auto
  have len: "0 < real (length xs)"
    using assms(1) by simp
  have "np_ge (np_div (f64_sum_from (Num 0) xs) (Num (real (length xs)))) (Num 0)"
    using s len by (cases "f64_sum_from (Num 0) xs") auto
  then show ?thesis
    unfolding f64_mean_def f64_div_def by (rule rounded_nonneg)
qed

lemma f64_sqrt_nonneg: "np_ge v (Num 0) \<Longrightarrow> np_ge (f64_sqrt v) (Num 0)"
proof -
  assume "np_ge v (Num 0)"
  then have "np_ge (np_sqrt v) (Num 0)"
    by (cases v) auto
  then show ?thesis
    unfolding f64_sqrt_def by (rule rounded_nonneg)
qed

lemma RMSE_returns_nonneg:
  assumes "k = PyFloat \<or> k = NpFloat64" and "es \<noteq> []"
    and "RMSE (map (\<lambda>e. k (Num e)) es) (PyFloat (Num a)) = Inr v"
  shows "np_ge v (Num 0)"
proof -
  from assms(3) obtain e2
    where e2: "squared_errors (map (\<lambda>e. k (Num e)) es) (PyFloat (Num a)) = Inr e2"
      and v: "v = f64_sqrt (f64_mean (map py_value e2))"
    by (auto simp: RMSE_def Let_def split: sum.splits)
  have "length e2 = length es"
    using e2
  proof (induction es arbitrary: e2)
    case Nil
    then show ?case by simp
  next
    case (Cons e es)
    then show ?case
      by (auto split: sum.splits)
  qed
  then have ne: "map py_value e2 \<noteq> []"
    using assms(2) by auto
  have "\<forall>x \<in> set (map py_value e2). np_ge x (Num 0)"
    using squared_errors_nonneg [OF assms(1) e2] by simp
  from f64_mean_nonneg [OF ne this] show ?thesis
    unfolding v by (rule f64_sqrt_nonneg)
qed

section \<open>The loops as maps over the samples drawn\<close>

lemma draw_each_length_only:
  "length is = length js \<Longrightarrow> draw_each draw is g = draw_each draw js g"
proof (induction "is" arbitrary: js g)
  case Nil
  then show ?case by simp
next
  case (Cons i "is")
  then obtain j js' where js: "js = j # js'" and len: "length is = length js'"
    by (cases js) auto
  show ?case
    unfolding js using Cons.IH [OF len] by (simp split: prod.splits)
qed

lemma length_draw_each: "length (fst (draw_each draw is g)) = length is"
proof (induction "is" arbitrary: g)
  case Nil
  then show ?case by simp
next
  case (Cons i "is")
  obtain x g' where d: "draw g = (x, g')"
    by (cases "draw g")
  obtain xs g'' where r: "draw_each draw is g' = (xs, g'')"
    by (cases "draw_each draw is g'")
  from Cons.IH [of g'] r have "length xs = length is"
    by simp
  then show ?case
    by (simp add: d r)
qed

lemma length_py_range: "length (py_range a b) = nat (b - a)"
  by (simp add: py_range_def)

lemma Estimate1_loop_eq:
  "Estimate1_loop lib mu sigma n is means medians g =
     (case draw_each (draw_each (random_gauss lib mu sigma) (py_range 0 n)) is g of
        (xss, g') \<Rightarrow>
          (means @ map (\<lambda>xs. np_mean (map Num xs)) xss,
           medians @ map (\<lambda>xs. np_median (map Num xs)) xss, g'))"
  by (induction "is" arbitrary: means medians g) (simp_all add: Let_def split: prod.splits)

lemma Estimate2_loop_eq:
  "Estimate2_loop lib mu sigma n is estimates1 estimates2 g =
     (case draw_each (draw_each (random_gauss lib mu sigma) (py_range 0 n)) is g of
        (xss, g') \<Rightarrow>
          (estimates1 @ map (\<lambda>xs. np_var 0 (map Num xs)) xss,
           estimates2 @ map (\<lambda>xs. np_var 1 (map Num xs)) xss, g'))"
  by (induction "is" arbitrary: estimates1 estimates2 g) (simp_all add: Let_def split: prod.splits)

lemma SimulateSample_loop_eq:
  "SimulateSample_loop lib mu sigma n js xbars g =
     (case draw_each (np_random_normal lib mu sigma n) js g of
        (xss, g') \<Rightarrow> (xbars @ map (\<lambda>xs. np_mean (map Num xs)) xss, g'))"
  by (induction js arbitrary: xbars g) (simp_all add: Let_def split: prod.splits)

lemma Estimate3_loop_eq:
  "Estimate3_loop lib lam n is means medians g =
     (case draw_each (np_random_exponential lib (1 / lam) n) is g of
        (xss, g') \<Rightarrow>
          (means @ map (\<lambda>xs. np_div (Num 1) (np_mean (map Num xs))) xss,
           medians @ map (\<lambda>xs. np_div (Num (ln 2)) (thinkstats2_Median lib xs)) xss, g'))"
  by (induction "is" arbitrary: means medians g) (simp_all add: Let_def split: prod.splits)

lemma draw_each_all:
  assumes "\<And>g'. P (fst (draw g'))"
  shows "\<forall>x \<in> set (fst (draw_each draw is g)). P x"
proof (induction "is" arbitrary: g)
  case Nil
  then show ?case by simp
next
  case (Cons i "is")
  obtain x g' where d: "draw g = (x, g')"
    by (cases "draw g")
  obtain xs g'' where r: "draw_each draw is g' = (xs, g'')"
    by (cases "draw_each draw is g'")
  have "P x"
    using assms [of g] d by simp
  moreover have "\<forall>y \<in> set xs. P y"
    using Cons.IH [of g'] r by simp
  ultimately show ?case
    by (simp add: d r)
qed

lemma gauss_sample_length:
  "length (fst (draw_each (random_gauss lib mu sigma) (py_range 0 n) g)) = nat n"
  by (simp add: length_draw_each length_py_range)

lemma gauss_samples_lengths:
  "\<forall>xs \<in> set (fst (draw_each (draw_each (random_gauss lib mu sigma) (py_range 0 n)) is g)).
     length xs = nat n"
  by (rule draw_each_all) (rule gauss_sample_length)

lemma length_np_random_normal:
  "length (fst (np_random_normal lib mu sigma n g)) = nat n"
  by (simp add: np_random_normal_def length_draw_each length_py_range)

lemma length_np_random_exponential:
  "length (fst (np_random_exponential lib scale n g)) = nat n"
  by (simp add: np_random_exponential_def length_draw_each length_py_range)

lemma trials_lengths:
  "length (gauss_trials lib mu sigma n iters g) = nat iters"
  "length (normal_trials lib mu sigma n iters g) = nat iters"
  "length (exponential_trials lib scale n iters g) = nat iters"
  "\<forall>xs \<in> set (gauss_trials lib mu sigma n iters g). length xs = nat n"
  "\<forall>xs \<in> set (normal_trials lib mu sigma n iters g). length xs = nat n"
  "\<forall>xs \<in> set (exponential_trials lib scale n iters g). length xs = nat n"
proof -
  show "length (gauss_trials lib mu sigma n iters g) = nat iters"
    by (simp add: gauss_trials_def length_draw_each length_py_range)
  show "length (normal_trials lib mu sigma n iters g) = nat iters"
    by (simp add: normal_trials_def length_draw_each length_py_range)
  show "length (exponential_trials lib scale n iters g) = nat iters"
    by (simp add: exponential_trials_def length_draw_each length_py_range)
  show "\<forall>xs \<in> set (gauss_trials lib mu sigma n iters g). length xs = nat n"
    unfolding gauss_trials_def by (rule gauss_samples_lengths)
  show "\<forall>xs \<in> set (normal_trials lib mu sigma n iters g). length xs = nat n"
    unfolding normal_trials_def by (rule draw_each_all) (rule length_np_random_normal)
  show "\<forall>xs \<in> set (exponential_trials lib scale n iters g). length xs = nat n"
    unfolding exponential_trials_def by (rule draw_each_all) (rule length_np_random_exponential)
qed

lemma estimate_sets_over_trials:
  "fst (Estimate1 lib n iters g) =
     map (\<lambda>xs. np_mean (map Num xs)) (gauss_trials lib 0 1 n iters g)"
  "fst (snd (Estimate1 lib n iters g)) =
     map (\<lambda>xs. np_median (map Num xs)) (gauss_trials lib 0 1 n iters g)"
  "fst (Estimate2 lib n iters g) =
     map (\<lambda>xs. np_var 0 (map Num xs)) (gauss_trials lib 0 1 n iters g)"
  "fst (snd (Estimate2 lib n iters g)) =
     map (\<lambda>xs. np_var 1 (map Num xs)) (gauss_trials lib 0 1 n iters g)"
  "fst (Estimate3 lib n iters g) =
     map (\<lambda>xs. np_div (Num 1) (np_mean (map Num xs))) (exponential_trials lib (1 / 2) n iters g)"
  "fst (snd (Estimate3 lib n iters g)) =
     map (\<lambda>xs. np_div (Num (ln 2)) (thinkstats2_Median lib xs))
       (exponential_trials lib (1 / 2) n iters g)"
  "fst (SimulateSample lib mu sigma n iters g) =
     map (\<lambda>xs. np_mean (map Num xs)) (normal_trials lib mu sigma n iters g)"
  by (simp_all add: Estimate1_def Estimate2_def Estimate3_def SimulateSample_def
      Estimate1_loop_eq Estimate2_loop_eq Estimate3_loop_eq SimulateSample_loop_eq
      gauss_trials_def normal_trials_def exponential_trials_def Let_def case_prod_beta
      del: One_nat_def)

lemma py_range_0_2: "py_range 0 2 = [0, 1]"
  by (simp add: py_range_def upto_rec1)

lemma py_range_0_1: "py_range 0 1 = [0]"
  by (simp add: py_range_def upto_rec1)

section \<open>The clock of a game\<close>

lemma draw_each_upt_Suc:
  "draw_each draw [0..<Suc k] g =
     (case draw g of (x, g') \<Rightarrow>
        case draw_each draw [0..<k] g' of (xs, g'') \<Rightarrow> (x # xs, g''))"
proof -
  have "draw_each draw [0..<Suc k] g = draw_each draw (0 # [0..<k]) g"
    by (rule draw_each_length_only) simp
  then show ?thesis
    by simp
qed

lemma generator_after_0: "generator_after lib lam g 0 = g"
  by (simp add: generator_after_def)

lemma inter_goal_times_Suc:
  "random_expovariate lib lam g = (x, g') \<Longrightarrow>
   inter_goal_times lib lam g (Suc k) = x # inter_goal_times lib lam g' k"
  unfolding inter_goal_times_def draw_each_upt_Suc
  by (simp add: case_prod_beta)

lemma generator_after_Suc:
  "random_expovariate lib lam g = (x, g') \<Longrightarrow>
   generator_after lib lam g (Suc k) = generator_after lib lam g' k"
  unfolding generator_after_def draw_each_upt_Suc
  by (simp add: case_prod_beta)

lemma clock_from_Cons: "clock_from t (d # ds) = clock_from (f64_add t (Num d)) ds"
  by (simp add: clock_from_def)

lemma clock_from_Nil: "clock_from t [] = t"
  by (simp add: clock_from_def)

lemma game_clock_0: "game_clock lib lam g 0 = Num 0"
  by (simp add: game_clock_def inter_goal_times_def clock_from_def)

lemma f64_add_not_NaN: "t \<noteq> NaN \<Longrightarrow> f64_add t (Num d) \<noteq> NaN"
  by (cases t) (simp_all add: f64_add_def overflowed_def)

lemma clock_from_not_NaN: "t \<noteq> NaN \<Longrightarrow> clock_from t ds \<noteq> NaN"
  by (induction ds arbitrary: t) (simp_all add: clock_from_Nil clock_from_Cons f64_add_not_NaN)

lemma game_clock_not_NaN: "game_clock lib lam g k \<noteq> NaN"
  by (simp add: game_clock_def clock_from_not_NaN)

lemma at_most_one: "c \<noteq> NaN \<Longrightarrow> np_ge (Num 1) c \<longleftrightarrow> \<not> np_gt c (Num 1)"
  by (cases c) auto

lemma SimulateGame_loop_returns:
  assumes "np_gt (clock_from t (inter_goal_times lib lam g (Suc m))) (Num 1)"
      and "\<forall>j. 1 \<le> j \<and> j \<le> m \<longrightarrow> \<not> np_gt (clock_from t (inter_goal_times lib lam g j)) (Num 1)"
  shows "SimulateGame_loop lib lam goals t g =
         Some (goals + int m, generator_after lib lam g (Suc m))"
  using assms
proof (induction m arbitrary: goals t g)
  case 0
  obtain x g' where d: "random_expovariate lib lam g = (x, g')"
    by (cases "random_expovariate lib lam g")
  have "inter_goal_times lib lam g' 0 = []"
    by (simp add: inter_goal_times_def)
  with "0.prems"(1) have "np_gt (f64_add t (Num x)) (Num 1)"
    by (simp add: inter_goal_times_Suc [OF d] clock_from_Cons clock_from_Nil)
  then show ?case
    by (subst SimulateGame_loop.simps)
       (simp add: d generator_after_Suc [OF d] generator_after_0)
next
  case (Suc m)
  obtain x g' where d: "random_expovariate lib lam g = (x, g')"
    by (cases "random_expovariate lib lam g")
  have e: "inter_goal_times lib lam g' 0 = []"
    by (simp add: inter_goal_times_def)
  have "\<not> np_gt (clock_from t (inter_goal_times lib lam g 1)) (Num 1)"
    using Suc.prems(2) by simp
  then have le: "\<not> np_gt (f64_add t (Num x)) (Num 1)"
    using inter_goal_times_Suc [OF d, of 0] by (simp add: e clock_from_Cons clock_from_Nil)
  have p1: "np_gt (clock_from (f64_add t (Num x)) (inter_goal_times lib lam g' (Suc m))) (Num 1)"
    using Suc.prems(1) by (simp add: inter_goal_times_Suc [OF d] clock_from_Cons)
  have p2: "\<forall>j. 1 \<le> j \<and> j \<le> m \<longrightarrow>
              \<not> np_gt (clock_from (f64_add t (Num x)) (inter_goal_times lib lam g' j)) (Num 1)"
  proof (intro allI impI)
    fix j assume "1 \<le> j \<and> j \<le> m"
    then have "\<not> np_gt (clock_from t (inter_goal_times lib lam g (Suc j))) (Num 1)"
      using Suc.prems(2) by simp
    then show "\<not> np_gt (clock_from (f64_add t (Num x)) (inter_goal_times lib lam g' j)) (Num 1)"
      by (simp add: inter_goal_times_Suc [OF d] clock_from_Cons)
  qed
  have "SimulateGame_loop lib lam goals t g =
        SimulateGame_loop lib lam (goals + 1) (f64_add t (Num x)) g'"
    by (subst SimulateGame_loop.simps) (simp add: d le)
  also have "\<dots> = Some (goals + 1 + int m, generator_after lib lam g' (Suc m))"
    by (rule Suc.IH [OF p1 p2])
  finally show ?case
    by (simp add: generator_after_Suc [OF d])
qed

lemma first_passage:
  assumes "\<exists>k. np_gt (game_clock lib lam g k) (Num 1)"
  shows "\<exists>m. np_gt (game_clock lib lam g (Suc m)) (Num 1) \<and>
             (\<forall>j \<le> m. \<not> np_gt (game_clock lib lam g j) (Num 1))"
proof -
  define k where "k = (LEAST k. np_gt (game_clock lib lam g k) (Num 1))"
  have k: "np_gt (game_clock lib lam g k) (Num 1)"
    unfolding k_def using assms by (rule LeastI_ex)
  have least: "\<And>j. j < k \<Longrightarrow> \<not> np_gt (game_clock lib lam g j) (Num 1)"
    unfolding k_def by (rule not_less_Least)
  have "k \<noteq> 0"
    using k by (auto simp: game_clock_0 intro: ccontr)
  then obtain m where m: "k = Suc m"
    by (cases k) auto
  have "\<forall>j \<le> m. \<not> np_gt (game_clock lib lam g j) (Num 1)"
    using least m by (auto simp: less_Suc_eq_le)
  with k m show ?thesis
    by auto
qed

lemma count_early_goals:
  assumes "np_gt (c (Suc m)) (Num 1)" and "\<forall>j \<le> m. \<not> np_gt (c j) (Num 1)"
    and "\<forall>j. c j \<noteq> NaN"
  shows "length (filter (\<lambda>k. np_ge (Num 1) (c k)) [1..<Suc (Suc m)]) = m"
proof -
  have "filter (\<lambda>k. np_ge (Num 1) (c k)) [1..<Suc m] = [1..<Suc m]"
    using assms(2,3) by (auto simp: filter_id_conv at_most_one)
  then show ?thesis
    using assms(1,3) by (simp add: at_most_one)
qed

lemma SimulateGame_returns:
  assumes "np_gt (game_clock lib lam g (Suc m)) (Num 1)"
      and "\<forall>j \<le> m. \<not> np_gt (game_clock lib lam g j) (Num 1)"
  shows "SimulateGame lib lam g = Some (int m, generator_after lib lam g (Suc m))"
  unfolding SimulateGame_def
  using SimulateGame_loop_returns [of "Num 0" lib lam g m 0] assms
  by (simp add: game_clock_def)

text \<open>A game returns only if its clock passes 1: a game whose clock never passes 1
  never ends.\<close>

lemma SimulateGame_loop_passes:
  assumes "SimulateGame_loop lib lam goals t g = Some r"
  shows "\<exists>k. np_gt (clock_from t (inter_goal_times lib lam g k)) (Num 1)"
proof (rule SimulateGame_loop.raw_induct
    [where P = "\<lambda>lib lam goals t g r.
                  \<exists>k. np_gt (clock_from t (inter_goal_times lib lam g k)) (Num 1)", OF _ assms])
  fix loop :: "'g numlib \<Rightarrow> real \<Rightarrow> int \<Rightarrow> npfloat \<Rightarrow> 'g \<Rightarrow> (int \<times> 'g) option"
  fix lib lam goals t g r
  assume IH: "\<And>lib lam goals t g r. loop lib lam goals t g = Some r \<Longrightarrow>
                \<exists>k. np_gt (clock_from t (inter_goal_times lib lam g k)) (Num 1)"
  assume body: "(case random_expovariate lib lam g of
      (time_between_goals, g') \<Rightarrow>
        let t' = f64_add t (Num time_between_goals)
        in if np_gt t' (Num 1) then Some (goals, g')
           else loop lib lam (goals + 1) t' g') = Some r"
  obtain x g' where d: "random_expovariate lib lam g = (x, g')"
    by (cases "random_expovariate lib lam g")
  have e: "inter_goal_times lib lam g' 0 = []"
    by (simp add: inter_goal_times_def)
  show "\<exists>k. np_gt (clock_from t (inter_goal_times lib lam g k)) (Num 1)"
  proof (cases "np_gt (f64_add t (Num x)) (Num 1)")
    case True
    then have "np_gt (clock_from t (inter_goal_times lib lam g (Suc 0))) (Num 1)"
      by (simp add: inter_goal_times_Suc [OF d] e clock_from_Cons clock_from_Nil)
    then show ?thesis
      by blast
  next
    case False
    with body d have "loop lib lam (goals + 1) (f64_add t (Num x)) g' = Some r"
      by (simp add: Let_def)
    from IH [OF this] obtain k
      where "np_gt (clock_from (f64_add t (Num x)) (inter_goal_times lib lam g' k)) (Num 1)"
      by blast
    then have "np_gt (clock_from t (inter_goal_times lib lam g (Suc k))) (Num 1)"
      by (simp add: inter_goal_times_Suc [OF d] clock_from_Cons)
    then show ?thesis
      by blast
  qed
qed

lemma SimulateGame_never_ends:
  assumes "\<forall>k. \<not> np_gt (game_clock lib lam g k) (Num 1)"
  shows "SimulateGame lib lam g = None"
proof (cases "SimulateGame lib lam g")
  case None
  then show ?thesis .
next
  case (Some r)
  then have "\<exists>k. np_gt (clock_from (Num 0) (inter_goal_times lib lam g k)) (Num 1)"
    unfolding SimulateGame_def by (rule SimulateGame_loop_passes)
  with assms show ?thesis
    by (simp add: game_clock_def)
qed

lemma every_game_returns:
  assumes "\<forall>g'. \<exists>k. np_gt (game_clock lib lam g' k) (Num 1)"
  shows "\<exists>r. SimulateGame lib lam g = Some r"
proof -
  from assms have "\<exists>k. np_gt (game_clock lib lam g k) (Num 1)"
    by blast
  from first_passage [OF this] obtain m
    where "np_gt (game_clock lib lam g (Suc m)) (Num 1)"
      "\<forall>j \<le> m. \<not> np_gt (game_clock lib lam g j) (Num 1)"
    by blast
  then have "SimulateGame lib lam g = Some (int m, generator_after lib lam g (Suc m))"
    by (rule SimulateGame_returns)
  then show ?thesis
    by blast
qed

text \<open>\<open>ManyGames\<close> plays one game per index.\<close>

lemma ManyGames_loop_eq:
  "ManyGames_loop lib lam is goals g =
     (case play_each lib lam is g of
        None \<Rightarrow> None
      | Some (Ls, g') \<Rightarrow> Some (goals @ Ls, g'))"
  by (induction "is" arbitrary: goals g) (simp_all split: option.splits)

lemma length_play_each:
  "play_each lib lam is g = Some (Ls, g') \<Longrightarrow> length Ls = length is"
proof (induction "is" arbitrary: g Ls)
  case Nil
  then show ?case by simp
next
  case (Cons i "is")
  from Cons.prems obtain L g1 rest
    where r: "play_each lib lam is g1 = Some (rest, g')" and "Ls = L # rest"
    by (auto split: option.splits)
  with Cons.IH [OF r] show ?case
    by simp
qed

lemma play_each_returns:
  assumes "\<And>g'. \<exists>r. SimulateGame lib lam g' = Some r"
  shows "\<exists>r. play_each lib lam is g = Some r"
proof (induction "is" arbitrary: g)
  case Nil
  then show ?case by simp
next
  case (Cons i "is")
  from assms [of g] obtain L g1 where s: "SimulateGame lib lam g = Some (L, g1)"
    by (cases "SimulateGame lib lam g") auto
  from Cons [of g1] show ?case
    by (auto simp: s)
qed

text \<open>Games of the concrete library: inter-goal times of \<open>3/8\<close>, which add up exactly,
  and of the float64 nearest to \<open>0.2\<close>, five of which add up to exactly 1 on the
  float64 clock.\<close>

lemma clockwork_draws:
  "inter_goal_times (clockwork d) lam g k = replicate k d \<and>
   generator_after (clockwork d) lam g k = g + k"
proof (induction k arbitrary: g)
  case 0
  then show ?case
    by (simp add: inter_goal_times_def generator_after_def)
next
  case (Suc k)
  have d: "random_expovariate (clockwork d) lam g = (d, Suc g)"
    by (simp add: clockwork_def)
  show ?case
    using Suc [of "Suc g"]
    by (simp add: inter_goal_times_Suc [OF d] generator_after_Suc [OF d])
qed

lemma clockwork_clock: "game_clock (clockwork d) lam g k = clock_from (Num 0) (replicate k d)"
  by (simp add: game_clock_def clockwork_draws)

lemma clockwork_clock_Suc:
  "game_clock (clockwork d) lam g (Suc k) =
   f64_add (game_clock (clockwork d) lam g k) (Num d)"
proof -
  have "replicate (Suc k) d = replicate k d @ [d]"
    by (simp add: replicate_append_same)
  then show ?thesis
    unfolding clockwork_clock clock_from_def by simp
qed

lemma three_eighths_clock:
  "f64_add (Num 0) (Num (3 / 8)) = Num (3 / 8)"
  "f64_add (Num (3 / 8)) (Num (3 / 8)) = Num (3 / 4)"
  "f64_add (Num (3 / 4)) (Num (3 / 8)) = Num (9 / 8)"
proof -
  have 1: "round64 (0 + 3 / 8) = 3 / 8"
    using round64_binade [of "-2" "0 + 3 / 8"]
    by (simp add: power_int_minus round_half_even_def field_simps)
  have 2: "round64 (3 / 8 + 3 / 8) = 3 / 4"
    using round64_binade [of "-1" "3 / 8 + 3 / 8"]
    by (simp add: power_int_minus round_half_even_def field_simps)
  have 3: "round64 (3 / 4 + 3 / 8) = 9 / 8"
    using round64_binade [of "0" "3 / 4 + 3 / 8"]
    by (simp add: power_int_minus round_half_even_def field_simps)
  show "f64_add (Num 0) (Num (3 / 8)) = Num (3 / 8)"
    unfolding f64_add_Num 1 by (rule threshold_huge) simp
  show "f64_add (Num (3 / 8)) (Num (3 / 8)) = Num (3 / 4)"
    unfolding f64_add_Num 2 by (rule threshold_huge) simp
  show "f64_add (Num (3 / 4)) (Num (3 / 8)) = Num (9 / 8)"
    unfolding f64_add_Num 3 by (rule threshold_huge) simp
qed

lemma clockwork_game: "SimulateGame (clockwork (3 / 8)) lam g = Some (2, g + 3)"
proof -
  have c: "game_clock (clockwork (3 / 8)) lam g 0 = Num 0"
    "game_clock (clockwork (3 / 8)) lam g 1 = Num (3 / 8)"
    "game_clock (clockwork (3 / 8)) lam g 2 = Num (3 / 4)"
    "game_clock (clockwork (3 / 8)) lam g 3 = Num (9 / 8)"
    by (simp_all add: clockwork_clock numeral_2_eq_2 numeral_3_eq_3 clock_from_Cons clock_from_Nil
        three_eighths_clock)
  have "SimulateGame (clockwork (3 / 8)) lam g =
        Some (int 2, generator_after (clockwork (3 / 8)) lam g (Suc 2))"
  proof (rule SimulateGame_returns)
    show "np_gt (game_clock (clockwork (3 / 8)) lam g (Suc 2)) (Num 1)"
      using c(4) by (simp add: numeral_3_eq_3 numeral_2_eq_2)
    show "\<forall>j \<le> 2. \<not> np_gt (game_clock (clockwork (3 / 8)) lam g j) (Num 1)"
    proof (intro allI impI)
      fix j :: nat assume "j \<le> 2"
      then have "j = 0 \<or> j = 1 \<or> j = 2"
        by auto
      with c show "\<not> np_gt (game_clock (clockwork (3 / 8)) lam g j) (Num 1)"
        by auto
    qed
  qed
  then show ?thesis
    by (simp add: clockwork_draws)
qed

lemma clockwork_play_each:
  "play_each (clockwork (3 / 8)) lam is g = Some (replicate (length is) 2, g + 3 * length is)"
  by (induction "is" arbitrary: g) (simp_all add: clockwork_game)

lemma double_0_2_clock:
  "f64_add (Num 0) (Num double_0_2) = Num double_0_2"
  "f64_add (Num double_0_2) (Num double_0_2) = Num (3602879701896397 / 2 ^ 53)"
  "f64_add (Num (3602879701896397 / 2 ^ 53)) (Num double_0_2) = Num (5404319552844596 / 2 ^ 53)"
  "f64_add (Num (5404319552844596 / 2 ^ 53)) (Num double_0_2) = Num (7205759403792794 / 2 ^ 53)"
  "f64_add (Num (7205759403792794 / 2 ^ 53)) (Num double_0_2) = Num 1"
  "f64_add (Num 1) (Num double_0_2) = Num (5404319552844595 / 2 ^ 52)"
proof -
  have 1: "round64 (0 + double_0_2) = double_0_2"
    using round64_binade [of "-3" "0 + double_0_2"]
    by (simp add: double_0_2_def power_int_minus round_half_even_def field_simps)
  have 2: "round64 (double_0_2 + double_0_2) = 3602879701896397 / 2 ^ 53"
    using round64_binade [of "-2" "double_0_2 + double_0_2"]
    by (simp add: double_0_2_def power_int_minus round_half_even_def field_simps)
  have 3: "round64 (3602879701896397 / 2 ^ 53 + double_0_2) = 5404319552844596 / 2 ^ 53"
    using round64_binade [of "-1" "3602879701896397 / 2 ^ 53 + double_0_2"]
    by (simp add: double_0_2_def power_int_minus round_half_even_def field_simps)
  have 4: "round64 (5404319552844596 / 2 ^ 53 + double_0_2) = 7205759403792794 / 2 ^ 53"
    using round64_binade [of "-1" "5404319552844596 / 2 ^ 53 + double_0_2"]
    by (simp add: double_0_2_def power_int_minus round_half_even_def field_simps)
  have 5: "round64 (7205759403792794 / 2 ^ 53 + double_0_2) = 1"
    using round64_binade [of "0" "7205759403792794 / 2 ^ 53 + double_0_2"]
    by (simp add: double_0_2_def power_int_minus round_half_even_def field_simps)
  have 6: "round64 (1 + double_0_2) = 5404319552844595 / 2 ^ 52"
    using round64_binade [of "0" "1 + double_0_2"]
    by (simp add: double_0_2_def power_int_minus round_half_even_def field_simps)
  show "f64_add (Num 0) (Num double_0_2) = Num double_0_2"
    unfolding f64_add_Num 1 by (rule threshold_huge) (simp add: double_0_2_def)
  show "f64_add (Num double_0_2) (Num double_0_2) = Num (3602879701896397 / 2 ^ 53)"
    unfolding f64_add_Num 2 by (rule threshold_huge) simp
  show "f64_add (Num (3602879701896397 / 2 ^ 53)) (Num double_0_2) = Num (5404319552844596 / 2 ^ 53)"
    unfolding f64_add_Num 3 by (rule threshold_huge) simp
  show "f64_add (Num (5404319552844596 / 2 ^ 53)) (Num double_0_2) = Num (7205759403792794 / 2 ^ 53)"
    unfolding f64_add_Num 4 by (rule threshold_huge) simp
  show "f64_add (Num (7205759403792794 / 2 ^ 53)) (Num double_0_2) = Num 1"
    unfolding f64_add_Num 5 by (rule threshold_huge) simp
  show "f64_add (Num 1) (Num double_0_2) = Num (5404319552844595 / 2 ^ 52)"
    unfolding f64_add_Num 6 by (rule threshold_huge) simp
qed

lemma double_0_2_readings:
  "game_clock (clockwork double_0_2) lam g 0 = Num 0"
  "game_clock (clockwork double_0_2) lam g 1 = Num double_0_2"
  "game_clock (clockwork double_0_2) lam g 2 = Num (3602879701896397 / 2 ^ 53)"
  "game_clock (clockwork double_0_2) lam g 3 = Num (5404319552844596 / 2 ^ 53)"
  "game_clock (clockwork double_0_2) lam g 4 = Num (7205759403792794 / 2 ^ 53)"
  "game_clock (clockwork double_0_2) lam g 5 = Num 1"
  "game_clock (clockwork double_0_2) lam g 6 = Num (5404319552844595 / 2 ^ 52)"
proof -
  let ?c = "game_clock (clockwork double_0_2) lam g"
  have step: "?c k = t \<Longrightarrow> f64_add t (Num double_0_2) = t' \<Longrightarrow> ?c (Suc k) = t'" for k t t'
    by (simp only: clockwork_clock_Suc)
  show r0: "?c 0 = Num 0"
    by (rule game_clock_0)
  have "?c (Suc 0) = Num double_0_2"
    using r0 double_0_2_clock(1) by (rule step)
  then show r1: "?c 1 = Num double_0_2"
    by (simp only: One_nat_def)
  have "?c (Suc 1) = Num (3602879701896397 / 2 ^ 53)"
    using r1 double_0_2_clock(2) by (rule step)
  then show r2: "?c 2 = Num (3602879701896397 / 2 ^ 53)"
    by (simp only: Suc_1)
  have "?c (Suc 2) = Num (5404319552844596 / 2 ^ 53)"
    using r2 double_0_2_clock(3) by (rule step)
  moreover have "Suc 2 = 3"
    by simp
  ultimately show r3: "?c 3 = Num (5404319552844596 / 2 ^ 53)"
    by (simp only:)
  have "?c (Suc 3) = Num (7205759403792794 / 2 ^ 53)"
    using r3 double_0_2_clock(4) by (rule step)
  moreover have "Suc 3 = 4"
    by simp
  ultimately show r4: "?c 4 = Num (7205759403792794 / 2 ^ 53)"
    by (simp only:)
  have "?c (Suc 4) = Num 1"
    using r4 double_0_2_clock(5) by (rule step)
  moreover have "Suc 4 = 5"
    by simp
  ultimately show r5: "?c 5 = Num 1"
    by (simp only:)
  have "?c (Suc 5) = Num (5404319552844595 / 2 ^ 52)"
    using r5 double_0_2_clock(6) by (rule step)
  moreover have "Suc 5 = 6"
    by simp
  ultimately show "?c 6 = Num (5404319552844595 / 2 ^ 52)"
    by (simp only:)
qed

lemma double_0_2_game: "SimulateGame (clockwork double_0_2) lam g = Some (5, g + 6)"
proof -
  note r = double_0_2_readings [of lam g]
  have "SimulateGame (clockwork double_0_2) lam g =
        Some (int 5, generator_after (clockwork double_0_2) lam g (Suc 5))"
  proof (rule SimulateGame_returns)
    have "np_gt (game_clock (clockwork double_0_2) lam g 6) (Num 1)"
      unfolding r by simp
    then show "np_gt (game_clock (clockwork double_0_2) lam g (Suc 5)) (Num 1)"
      by simp
    show "\<forall>j \<le> 5. \<not> np_gt (game_clock (clockwork double_0_2) lam g j) (Num 1)"
    proof (intro allI impI)
      fix j :: nat assume "j \<le> 5"
      then consider "j = 0" | "j = 1" | "j = 2" | "j = 3" | "j = 4" | "j = 5"
        by linarith
      moreover have
        "\<not> np_gt (game_clock (clockwork double_0_2) lam g 0) (Num 1)"
        "\<not> np_gt (game_clock (clockwork double_0_2) lam g 1) (Num 1)"
        "\<not> np_gt (game_clock (clockwork double_0_2) lam g 2) (Num 1)"
        "\<not> np_gt (game_clock (clockwork double_0_2) lam g 3) (Num 1)"
        "\<not> np_gt (game_clock (clockwork double_0_2) lam g 4) (Num 1)"
        "\<not> np_gt (game_clock (clockwork double_0_2) lam g 5) (Num 1)"
        unfolding r by (simp_all add: double_0_2_def)
      ultimately show "\<not> np_gt (game_clock (clockwork double_0_2) lam g j) (Num 1)"
        by cases blast+
    qed
  qed
  then show ?thesis
    by (simp add: clockwork_draws)
qed

section \<open>Properties of the summaries\<close>

text \<open>
  C2, as the code has it. \<open>RMSE\<close> returns the float64 evaluation of the root mean square,
  which is within rounding of it as long as no square leaves the normal range of
  float64: for a non-empty sequence of \<open>m \<le> 2\<^sup>3\<^sup>2\<close> numbers \<open>e\<^sub>1 \<dots> e\<^sub>m\<close> and a true value \<open>a\<close>
  such that every deviation \<open>e\<^sub>i - a\<close> is zero or at least \<open>2\<^sup>-\<^sup>4\<^sup>9\<^sup>0\<close> in magnitude and the
  squared deviations add up to at most \<open>2\<^sup>1\<^sup>0\<^sup>2\<^sup>2\<close>, the call returns a number \<open>r\<close>, the
  same for Python floats and for numpy scalars, with
  \<open>R * (1 - 2\<^sup>-\<^sup>5\<^sup>3)\<^sup>m\<^sup>+\<^sup>5 \<le> r \<le> R * (1 + 2\<^sup>-\<^sup>5\<^sup>3)\<^sup>m\<^sup>+\<^sup>5\<close> for \<open>R = sqrt ((1/m) * \<Sum> (e\<^sub>i - a)\<^sup>2)\<close>: one
  factor for each of the \<open>m + 5\<close> roundings on the way.
\<close>

theorem RMSE_is_root_mean_square_up_to_rounding:
  assumes "es \<noteq> []" and "length es \<le> 2 ^ 32"
    and "\<forall>e \<in> set es. e = a \<or> 1 / 2 ^ 490 \<le> \<bar>e - a\<bar>"
    and "(\<Sum>e\<leftarrow>es. (e - a) ^ 2) \<le> 2 ^ 1022"
  shows "\<exists>r. RMSE (map (\<lambda>e. PyFloat (Num e)) es) (PyFloat (Num a)) = Inr (Num r) \<and>
             RMSE (map (\<lambda>e. NpFloat64 (Num e)) es) (PyFloat (Num a)) = Inr (Num r) \<and>
             sqrt ((1 / real (length es)) * (\<Sum>e\<leftarrow>es. (e - a) ^ 2)) *
               (1 - 1 / 2 ^ 53) ^ (length es + 5) \<le> r \<and>
             r \<le> sqrt ((1 / real (length es)) * (\<Sum>e\<leftarrow>es. (e - a) ^ 2)) *
               (1 + 1 / 2 ^ 53) ^ (length es + 5)"
proof -
  from root_mean_rounded [OF assms] obtain r
    where r: "f64_sqrt (f64_mean (map (\<lambda>e. Num (round64 ((round64 (e - a)) ^ 2))) es)) = Num r"
      and b: "roundings (length es + 5) r (sqrt ((1 / real (length es)) * (\<Sum>e\<leftarrow>es. (e - a) ^ 2)))"
    by blast
  have "RMSE (map (\<lambda>e. PyFloat (Num e)) es) (PyFloat (Num a)) = Inr (Num r)"
    using RMSE_value [OF _ assms(3,4), of PyFloat] r by simp
  moreover have "RMSE (map (\<lambda>e. NpFloat64 (Num e)) es) (PyFloat (Num a)) = Inr (Num r)"
    using RMSE_value [OF _ assms(3,4), of NpFloat64] r by simp
  ultimately show ?thesis
    using b unfolding roundings_def unit_roundoff_def by blast
qed

theorem RMSE_is_root_mean_square_up_to_rounding_witness:
  "[1, 7] \<noteq> ([] :: real list) \<and> length [1, 7 :: real] \<le> 2 ^ 32 \<and>
   (1 = (4::real) \<or> 1 / 2 ^ 490 \<le> \<bar>1 - 4 :: real\<bar>) \<and>
   (7 = (4::real) \<or> 1 / 2 ^ 490 \<le> \<bar>7 - 4 :: real\<bar>) \<and>
   (\<Sum>e\<leftarrow>[1, 7]. (e - 4) ^ 2) \<le> (2 ^ 1022 :: real) \<and>
   RMSE [PyFloat (Num 1), PyFloat (Num 7)] (PyFloat (Num 4)) = Inr (Num 3) \<and>
   RMSE [NpFloat64 (Num 1), NpFloat64 (Num 7)] (PyFloat (Num 4)) = Inr (Num 3) \<and>
   sqrt ((1 / 2) * 18) * (1 - 1 / 2 ^ 53) ^ 7 \<le> 3 \<and>
   3 \<le> sqrt ((1 / 2) * 18) * (1 + 1 / 2 ^ 53) ^ 7"
proof -
  have h2: "length [1, 7 :: real] \<le> 2 ^ 32"
    by simp
  have h3: "\<forall>e \<in> set [1, 7 :: real]. e = 4 \<or> 1 / 2 ^ 490 \<le> \<bar>e - 4\<bar>"
    by simp
  have h4: "(\<Sum>e\<leftarrow>[1, 7]. (e - 4) ^ 2) \<le> (2 ^ 1022 :: real)"
    by simp
  have seven: "length [1, 7 :: real] + 5 = 7" and sum: "(\<Sum>e\<leftarrow>[1, 7 :: real]. (e - 4) ^ 2) = 18"
    and len: "real (length [1, 7 :: real]) = 2"
    by simp_all
  from RMSE_is_root_mean_square_up_to_rounding [OF _ h2 h3 h4]
  obtain r where r: "RMSE (map (\<lambda>e. PyFloat (Num e)) [1, 7]) (PyFloat (Num 4)) = Inr (Num r)"
    and b: "sqrt ((1 / real (length [1, 7 :: real])) * (\<Sum>e\<leftarrow>[1, 7]. (e - 4) ^ 2)) *
               (1 - 1 / 2 ^ 53) ^ (length [1, 7 :: real] + 5) \<le> r"
      "r \<le> sqrt ((1 / real (length [1, 7 :: real])) * (\<Sum>e\<leftarrow>[1, 7]. (e - 4) ^ 2)) *
               (1 + 1 / 2 ^ 53) ^ (length [1, 7 :: real] + 5)"
    by blast
  from r have "r = 3"
    by (simp add: RMSE_1_7)
  with b have "sqrt ((1 / 2) * 18) * (1 - 1 / 2 ^ 53) ^ 7 \<le> 3"
    "3 \<le> sqrt ((1 / 2) * 18) * (1 + 1 / 2 ^ 53) ^ 7"
    unfolding seven sum len by simp_all
  with h2 h4 RMSE_1_7 show ?thesis
    by simp
qed

text \<open>
  The claim as written ranges over every sequence and every true value. It fails
  where a square leaves the range: on the Python float \<open>2\<^sup>5\<^sup>1\<^sup>2\<close> the call raises
  \<open>OverflowError\<close>, on the numpy scalar \<open>2\<^sup>5\<^sup>1\<^sup>2\<close> it returns infinity, and on \<open>2\<^sup>-\<^sup>6\<^sup>0\<^sup>0\<close>
  it returns 0, where the root mean square is \<open>2\<^sup>5\<^sup>1\<^sup>2\<close>, \<open>2\<^sup>5\<^sup>1\<^sup>2\<close> and \<open>2\<^sup>-\<^sup>6\<^sup>0\<^sup>0\<close>.
\<close>

theorem RMSE_overflow_counterexample:
  "RMSE [PyFloat (Num (2 ^ 512))] (PyFloat (Num 0)) = Inl OverflowError \<and>
   RMSE [NpFloat64 (Num (2 ^ 512))] (PyFloat (Num 0)) = Inr PosInf \<and>
   RMSE [PyFloat (Num (1 / 2 ^ 600))] (PyFloat (Num 0)) = Inr (Num 0)"
proof (intro conjI)
  have sq: "((2::real) ^ 512) ^ 2 = 2 ^ 1024"
    by simp
  show "RMSE [PyFloat (Num (2 ^ 512))] (PyFloat (Num 0)) = Inl OverflowError"
    using round64_powers(1,3)
    by (simp add: RMSE_def f64_sub_def overflowed_def overflow_threshold_def)
  show "RMSE [NpFloat64 (Num (2 ^ 512))] (PyFloat (Num 0)) = Inr PosInf"
    using round64_powers(1,3)
    by (simp add: RMSE_def f64_sub_def f64_add_def f64_div_def f64_sqrt_def f64_mean_def
        overflowed_def overflow_threshold_def)
  show "RMSE [PyFloat (Num (1 / 2 ^ 600))] (PyFloat (Num 0)) = Inr (Num 0)"
  proof (rule RMSE_single_underflow)
    have "\<bar>1 / 2 ^ 600\<bar> < overflow_threshold"
      by (simp add: overflow_threshold_def)
    with round64_powers(4) show "representable (1 / 2 ^ 600)"
      unfolding representable_def by (rule conjI)
    show "\<bar>(1 / 2 ^ 600) ^ 2\<bar> \<le> (1::real) / 2 ^ 1075"
      by (simp add: power_divide)
  qed
qed

text \<open>
  C3, as the code has it. On an empty sequence \<open>RMSE\<close> and \<open>MeanError\<close> do not fail:
  \<open>np.mean\<close> of the empty list is NaN, and each function returns NaN. \<open>MeanError\<close>
  returns on every sequence. \<open>RMSE\<close> fails exactly when \<open>**\<close> raises, that is, when
  the deviation of some estimate is a Python float whose square rounds beyond
  the float64 range, and then with \<open>OverflowError\<close>; on every other sequence it
  returns.
\<close>

theorem summaries_fail_only_by_overflow:
  "RMSE [] a = Inr NaN \<and> MeanError [] b = Inr NaN \<and>
   (\<exists>v. MeanError es b = Inr v) \<and>
   (list_ex (\<lambda>x. square_overflows (py_sub x a)) xs \<longrightarrow> RMSE xs a = Inl OverflowError) \<and>
   (\<not> list_ex (\<lambda>x. square_overflows (py_sub x a)) xs \<longrightarrow> (\<exists>v. RMSE xs a = Inr v))"
proof (intro conjI impI)
  show "RMSE [] a = Inr NaN"
    by (rule RMSE_Nil)
  show "MeanError [] b = Inr NaN"
    by (rule MeanError_Nil)
  show "\<exists>v. MeanError es b = Inr v"
    by (simp add: MeanError_def)
  show "RMSE xs a = Inl OverflowError" if "list_ex (\<lambda>x. square_overflows (py_sub x a)) xs"
    using that by (simp add: RMSE_raises)
  show "\<exists>v. RMSE xs a = Inr v" if "\<not> list_ex (\<lambda>x. square_overflows (py_sub x a)) xs"
  proof (cases "RMSE xs a")
    case (Inl e)
    with that show ?thesis
      by (simp add: RMSE_raises)
  next
    case (Inr v)
    then show ?thesis by blast
  qed
qed

theorem summaries_fail_only_by_overflow_witness:
  "RMSE [] (PyFloat (Num 3)) = Inr NaN \<and> MeanError [] (Num 3) = Inr NaN \<and>
   MeanError [Num 2, Num 4] (Num 3) = Inr (Num 0) \<and>
   list_ex (\<lambda>x. square_overflows (py_sub x (PyFloat (Num 0)))) [PyFloat (Num 1), PyFloat (Num (2 ^ 512))] \<and>
   RMSE [PyFloat (Num 1), PyFloat (Num (2 ^ 512))] (PyFloat (Num 0)) = Inl OverflowError \<and>
   \<not> list_ex (\<lambda>x. square_overflows (py_sub x (PyFloat (Num 3)))) [PyFloat (Num 2), PyFloat (Num 4)] \<and>
   RMSE [PyFloat (Num 2), PyFloat (Num 4)] (PyFloat (Num 3)) = Inr (Num 1)"
proof -
  have o: "list_ex (\<lambda>x. square_overflows (py_sub x (PyFloat (Num 0))))
             [PyFloat (Num 1), PyFloat (Num (2 ^ 512))]"
    using round64_powers(1,3)
    by (simp add: f64_sub_def overflowed_def overflow_threshold_def)
  have m: "MeanError [Num 2, Num 4] (Num 3) = Inr (Num 0)"
    by (simp add: MeanError_def f64_sub_def f64_mean_def f64_div_def f64_add_def
        round64_small_ints round64_0 threshold_huge)
  have n: "\<not> list_ex (\<lambda>x. square_overflows (py_sub x (PyFloat (Num 3)))) [PyFloat (Num 2), PyFloat (Num 4)]"
    by (simp add: f64_sub_def round64_small_ints threshold_huge overflow_threshold_def)
  have r: "RMSE [PyFloat (Num 2), PyFloat (Num 4)] (PyFloat (Num 3)) = Inr (Num 1)"
    by (simp add: RMSE_def f64_sub_def f64_mean_def f64_div_def f64_add_def f64_sqrt_def
        round64_small_ints round64_0 threshold_huge overflow_threshold_def)
  from summaries_fail_only_by_overflow
         [of "PyFloat (Num 3)" "Num 3" "[Num 2, Num 4]" "[PyFloat (Num 2), PyFloat (Num 4)]"]
       summaries_fail_only_by_overflow
         [of "PyFloat (Num 0)" "Num 3" "[Num 2, Num 4]" "[PyFloat (Num 1), PyFloat (Num (2 ^ 512))]"]
       o m n r
  show ?thesis
    by blast
qed

text \<open>
  The claim as written, that the empty sequence makes the call fail with
  \<open>InvalidInput\<close>, is false at the empty sequence and true value \<open>0\<close>.
\<close>

theorem empty_estimates_counterexample:
  "RMSE [] (PyFloat (Num 0)) \<noteq> Inl InvalidInput \<and> MeanError [] (Num 0) \<noteq> Inl InvalidInput \<and>
   RMSE [] (PyFloat (Num 0)) = Inr NaN \<and> MeanError [] (Num 0) = Inr NaN"
  by (simp add: RMSE_Nil MeanError_Nil)

text \<open>
  C7, as the code has it. \<open>MeanError([e + c for e in estimates], actual)\<close> is \<open>==\<close> to
  \<open>MeanError(estimates, actual) + c\<close> where no operation of either side rounds. That
  is so for integers small enough that every sum of them is a float64: for a
  non-empty sequence of integers \<open>e\<^sub>1 \<dots> e\<^sub>m\<close>, an integer true value \<open>a\<close> and an integer
  shift \<open>c\<close> with \<open>\<Sum> \<bar>e\<^sub>i\<bar> + m * (\<bar>a\<bar> + \<bar>c\<bar>) < 2\<^sup>5\<^sup>3\<close> whose mean error \<open>v\<close> is an integer,
  the left side and the right side are both \<open>v + c\<close>.
\<close>

theorem MeanError_shift_on_integers:
  fixes es :: "int list" and a c :: int
  assumes "es \<noteq> []"
    and "(\<Sum>e\<leftarrow>es. \<bar>e\<bar>) + int (length es) * (\<bar>a\<bar> + \<bar>c\<bar>) < 2 ^ 53"
    and "int (length es) dvd (\<Sum>e\<leftarrow>es. e - a)"
  shows "MeanError (map (\<lambda>e. f64_add e (Num (of_int c))) (map (\<lambda>e. Num (of_int e)) es))
           (Num (of_int a)) =
           Inr (Num (of_int ((\<Sum>e\<leftarrow>es. e - a) div int (length es) + c))) \<and>
         MeanError (map (\<lambda>e. Num (of_int e)) es) (Num (of_int a)) =
           Inr (Num (of_int ((\<Sum>e\<leftarrow>es. e - a) div int (length es)))) \<and>
         f64_add (Num (of_int ((\<Sum>e\<leftarrow>es. e - a) div int (length es)))) (Num (of_int c)) =
           Num (of_int ((\<Sum>e\<leftarrow>es. e - a) div int (length es) + c))"
proof -
  let ?m = "int (length es)"
  let ?S = "\<Sum>e\<leftarrow>es. e - a"
  let ?B = "(\<Sum>e\<leftarrow>es. \<bar>e\<bar>) + ?m * (\<bar>a\<bar> + \<bar>c\<bar>)"
  let ?rs = "map real_of_int es"
  have m: "1 \<le> ?m"
    using assms(1) by (cases es) simp_all
  have nn: "0 \<le> (\<Sum>e\<leftarrow>es. \<bar>e\<bar>)"
    by (rule sum_list_nonneg) auto
  have ma: "\<bar>a\<bar> \<le> ?m * \<bar>a\<bar>" and mc: "\<bar>c\<bar> \<le> ?m * \<bar>c\<bar>"
    using m by (simp_all add: mult_le_cancel_right1)
  have bound: "(\<Sum>e\<leftarrow>es. \<bar>e + s\<bar>) \<le> ?B" if "\<bar>s\<bar> \<le> \<bar>a\<bar> + \<bar>c\<bar>" for s
  proof -
    have "?m * \<bar>s\<bar> \<le> ?m * (\<bar>a\<bar> + \<bar>c\<bar>)"
      using that m by (intro mult_left_mono) simp_all
    with sum_abs_shifted [of s es] show ?thesis
      by linarith
  qed
  have each: "\<bar>e + s\<bar> < 2 ^ 53" if "e \<in> set es" and "\<bar>s\<bar> \<le> \<bar>a\<bar> + \<bar>c\<bar>" for e s
  proof -
    have "\<bar>e + s\<bar> \<le> \<bar>e\<bar> + \<bar>s\<bar>"
      by simp
    also have "\<dots> \<le> (\<Sum>e\<leftarrow>es. \<bar>e\<bar>) + (\<bar>a\<bar> + \<bar>c\<bar>)"
      using abs_member_le_sum_abs [OF that(1)] that(2) by linarith
    also have "\<dots> \<le> ?B"
      using ma mc by (simp add: algebra_simps)
    finally show ?thesis
      using assms(2) by linarith
  qed
  have h2: "list_all (\<lambda>e. representable (e - of_int a) \<and> representable (e + of_int c) \<and>
                          representable (e + of_int c - of_int a)) ?rs"
    unfolding list_all_iff
  proof
    fix r assume "r \<in> set ?rs"
    then obtain e where e: "e \<in> set es" and r: "r = of_int e"
      by auto
    have b1: "\<bar>e + (- a)\<bar> < 2 ^ 53"
      by (rule each [OF e]) simp
    have b2: "\<bar>e + c\<bar> < 2 ^ 53"
      by (rule each [OF e]) simp
    have b3: "\<bar>e + (c - a)\<bar> < 2 ^ 53"
      by (rule each [OF e]) simp
    have "representable (of_int (e + (- a)))" "representable (of_int (e + c))"
      "representable (of_int (e + (c - a)))"
      by (rule representable_of_int [OF b1] representable_of_int [OF b2]
          representable_of_int [OF b3])+
    then show "representable (r - of_int a) \<and> representable (r + of_int c) \<and>
               representable (r + of_int c - of_int a)"
      unfolding r by (simp add: algebra_simps)
  qed
  have maps: "map (\<lambda>e. e - real_of_int a) ?rs = map of_int (map (\<lambda>e. e + (- a)) es)"
    "map (\<lambda>e. e + real_of_int c - real_of_int a) ?rs = map of_int (map (\<lambda>e. e + (c - a)) es)"
    by (simp_all add: algebra_simps)
  have h3: "list_all representable (running_sums 0 (map (\<lambda>e. e - of_int a) ?rs))"
  proof -
    have "\<bar>0::int\<bar> + (\<Sum>z\<leftarrow>map (\<lambda>e. e + (- a)) es. \<bar>z\<bar>) < 2 ^ 53"
      using bound [of "- a"] assms(2) by (simp add: comp_def)
    from integer_running_sums [OF this] show ?thesis
      unfolding maps by simp
  qed
  have h4: "list_all representable (running_sums 0 (map (\<lambda>e. e + of_int c - of_int a) ?rs))"
  proof -
    have "\<bar>c - a\<bar> \<le> \<bar>a\<bar> + \<bar>c\<bar>"
      by simp
    from bound [OF this] have "\<bar>0::int\<bar> + (\<Sum>z\<leftarrow>map (\<lambda>e. e + (c - a)) es. \<bar>z\<bar>) < 2 ^ 53"
      using assms(2) by (simp add: comp_def)
    from integer_running_sums [OF this] show ?thesis
      unfolding maps by simp
  qed
  have S: "(\<Sum>e\<leftarrow>?rs. e - of_int a) = of_int ?S"
    by (induction es) simp_all
  have v: "(\<Sum>e\<leftarrow>?rs. e - of_int a) / real (length ?rs) = of_int (?S div ?m)"
    unfolding S using real_of_int_div [OF assms(3)] by simp
  have Sb: "\<bar>?S\<bar> \<le> (\<Sum>e\<leftarrow>es. \<bar>e\<bar>) + ?m * \<bar>a\<bar>"
  proof -
    have "\<bar>?S\<bar> \<le> (\<Sum>e\<leftarrow>es. \<bar>e - a\<bar>)"
      using sum_list_abs [of "map (\<lambda>e. e - a) es"] by (simp add: comp_def)
    with sum_abs_shifted [of "- a" es] show ?thesis
      by simp
  qed
  have vb: "\<bar>?S div ?m\<bar> \<le> \<bar>?S\<bar>"
  proof -
    from assms(3) obtain k where k: "?S = ?m * k"
      by (rule dvdE)
    have "\<bar>k\<bar> * 1 \<le> \<bar>k\<bar> * ?m"
      using m by (intro mult_left_mono) simp_all
    then show ?thesis
      using m by (simp add: k abs_mult mult.commute)
  qed
  have h5: "representable ((\<Sum>e\<leftarrow>?rs. e - of_int a) / real (length ?rs))"
    unfolding v
  proof (rule representable_of_int)
    have "(\<Sum>e\<leftarrow>es. \<bar>e\<bar>) + ?m * \<bar>a\<bar> \<le> ?B"
      using m by (simp add: algebra_simps)
    with vb Sb assms(2) show "\<bar>?S div ?m\<bar> < 2 ^ 53"
      by linarith
  qed
  have h6: "representable ((\<Sum>e\<leftarrow>?rs. e - of_int a) / real (length ?rs) + of_int c)"
  proof -
    have "\<bar>?S div ?m + c\<bar> \<le> \<bar>?S div ?m\<bar> + \<bar>c\<bar>"
      by simp
    also have "\<dots> \<le> (\<Sum>e\<leftarrow>es. \<bar>e\<bar>) + ?m * \<bar>a\<bar> + ?m * \<bar>c\<bar>"
      using vb Sb mc by linarith
    also have "\<dots> = ?B"
      by (simp add: algebra_simps)
    finally have "\<bar>?S div ?m + c\<bar> < 2 ^ 53"
      using assms(2) by linarith
    then have "representable (of_int (?S div ?m + c))"
      by (rule representable_of_int)
    then show ?thesis
      unfolding v by simp
  qed
  have ne: "?rs \<noteq> []"
    using assms(1) by simp
  have lists: "map Num ?rs = map (\<lambda>e. Num (of_int e)) es"
    by simp
  have sum: "real_of_int (?S div ?m) + real_of_int c = real_of_int (?S div ?m + c)"
    by simp
  from MeanError_shift_without_rounding [OF ne h2 h3 h4 h5 h6]
  show ?thesis
    unfolding v lists sum .
qed

theorem MeanError_shift_on_integers_witness:
  "[1, 2, 3] \<noteq> ([] :: int list) \<and>
   (\<Sum>e\<leftarrow>[1, 2, 3]. \<bar>e\<bar>) + int (length [1, 2, 3 :: int]) * (\<bar>0\<bar> + \<bar>1\<bar>) < (2 ^ 53 :: int) \<and>
   int (length [1, 2, 3 :: int]) dvd (\<Sum>e\<leftarrow>[1, 2, 3]. e - 0) \<and>
   MeanError (map (\<lambda>e. f64_add e (Num 1)) [Num 1, Num 2, Num 3]) (Num 0) = Inr (Num 3) \<and>
   MeanError [Num 1, Num 2, Num 3] (Num 0) = Inr (Num 2) \<and>
   f64_add (Num 2) (Num 1) = Num 3"
proof -
  have ne: "[1, 2, 3] \<noteq> ([] :: int list)"
    by simp
  have h2: "(\<Sum>e\<leftarrow>[1, 2, 3]. \<bar>e\<bar>) + int (length [1, 2, 3 :: int]) * (\<bar>0\<bar> + \<bar>1\<bar>) < (2 ^ 53 :: int)"
    by simp
  have h3: "int (length [1, 2, 3 :: int]) dvd (\<Sum>e\<leftarrow>[1, 2, 3]. e - 0)"
    by simp
  have v: "(\<Sum>e\<leftarrow>[1, 2, 3 :: int]. e - 0) div int (length [1, 2, 3 :: int]) = 2"
    by simp
  have l: "map (\<lambda>e. Num (real_of_int e)) [1, 2, 3] = [Num 1, Num 2, Num 3]"
    by simp
  have n: "real_of_int 0 = 0" "real_of_int 1 = 1" "real_of_int 2 = 2" "real_of_int (2 + 1) = 3"
    by simp_all
  note t = MeanError_shift_on_integers [OF ne h2 h3, unfolded v l n]
  from ne h2 h3 t show ?thesis
    by (intro conjI) (erule conjunct1 conjunct2 | assumption | blast)+
qed

text \<open>
  The claim as written is an equality for every sequence and every constant. It
  fails where an operation rounds: at the estimates \<open>[1, 2, 2]\<close>, shift \<open>1\<close> and true
  value \<open>0\<close> the left side is the float64 nearest to \<open>8/3\<close> and the right side is
  the next float64 above it. It fails where a sum overflows: at the estimate
  \<open>2\<^sup>1\<^sup>0\<^sup>2\<^sup>3\<close>, shift \<open>2\<^sup>1\<^sup>0\<^sup>2\<^sup>3\<close> and true value \<open>2\<^sup>1\<^sup>0\<^sup>2\<^sup>3\<close> the left side is infinite and
  the right side is \<open>2\<^sup>1\<^sup>0\<^sup>2\<^sup>3\<close>.
\<close>

theorem MeanError_shift_counterexample:
  "MeanError (map (\<lambda>e. f64_add e (Num 1)) [Num 1, Num 2, Num 2]) (Num 0) =
     Inr (Num (6004799503160661 / 2 ^ 51)) \<and>
   MeanError [Num 1, Num 2, Num 2] (Num 0) = Inr (Num (7505999378950827 / 2 ^ 52)) \<and>
   f64_add (Num (7505999378950827 / 2 ^ 52)) (Num 1) = Num (6004799503160662 / 2 ^ 51) \<and>
   MeanError (map (\<lambda>e. f64_add e (Num (2 ^ 1023))) [Num (2 ^ 1023)]) (Num (2 ^ 1023)) = Inr PosInf \<and>
   MeanError [Num (2 ^ 1023)] (Num (2 ^ 1023)) = Inr (Num 0) \<and>
   f64_add (Num 0) (Num (2 ^ 1023)) = Num (2 ^ 1023)"
proof (intro conjI)
  have t: "overflowed (6004799503160661 / 2 ^ 51) = Num (6004799503160661 / 2 ^ 51)"
    "overflowed (7505999378950827 / 2 ^ 52) = Num (7505999378950827 / 2 ^ 52)"
    "overflowed (3002399751580331 / 2 ^ 50) = Num (3002399751580331 / 2 ^ 50)"
    by (rule overflowed_Num, simp add: overflow_threshold_def)+
  show "MeanError (map (\<lambda>e. f64_add e (Num 1)) [Num 1, Num 2, Num 2]) (Num 0) =
     Inr (Num (6004799503160661 / 2 ^ 51))"
    using round64_thirds(1) t(1)
    by (simp add: MeanError_def f64_sub_def f64_mean_def f64_div_def f64_add_def
        round64_small_ints round64_0 overflowed_def overflow_threshold_def)
  show "MeanError [Num 1, Num 2, Num 2] (Num 0) = Inr (Num (7505999378950827 / 2 ^ 52))"
    using round64_thirds(2) t(2)
    by (simp add: MeanError_def f64_sub_def f64_mean_def f64_div_def f64_add_def
        round64_small_ints round64_0 overflowed_def overflow_threshold_def)
  have "f64_add (Num (7505999378950827 / 2 ^ 52)) (Num 1) =
        overflowed (round64 (7505999378950827 / 2 ^ 52 + 1))"
    by (simp only: f64_add_def np_add.simps rounded.simps)
  also have "\<dots> = Num (3002399751580331 / 2 ^ 50)"
    unfolding round64_thirds(3) by (rule t(3))
  also have "(3002399751580331::real) / 2 ^ 50 = 6004799503160662 / 2 ^ 51"
    by simp
  finally show "f64_add (Num (7505999378950827 / 2 ^ 52)) (Num 1) = Num (6004799503160662 / 2 ^ 51)" .
  show "MeanError (map (\<lambda>e. f64_add e (Num (2 ^ 1023))) [Num (2 ^ 1023)]) (Num (2 ^ 1023)) = Inr PosInf"
    using round64_powers(3)
    by (simp add: MeanError_def f64_sub_def f64_mean_def f64_div_def f64_add_def
        overflowed_def overflow_threshold_def)
  show "MeanError [Num (2 ^ 1023)] (Num (2 ^ 1023)) = Inr (Num 0)"
    by (simp add: MeanError_def f64_sub_def f64_mean_def f64_div_def f64_add_def
        round64_0 threshold_huge)
  show "f64_add (Num 0) (Num (2 ^ 1023)) = Num (2 ^ 1023)"
    using round64_powers(2)
    by (simp add: f64_add_def overflowed_def overflow_threshold_def)
qed

text \<open>
  C9, as the code has it. For every non-empty sequence of numbers and every true
  value, the test \<open>RMSE(estimates, actual) >= 0\<close> is true whenever the call returns:
  on numpy scalars it always returns, on Python floats it returns or raises
  \<open>OverflowError\<close>.
\<close>

theorem RMSE_nonneg_when_it_returns:
  assumes "es \<noteq> []"
  shows "result_ge (RMSE (map (\<lambda>e. NpFloat64 (Num e)) es) (PyFloat (Num a))) (Num 0) \<and>
         (RMSE (map (\<lambda>e. PyFloat (Num e)) es) (PyFloat (Num a)) = Inl OverflowError \<or>
          result_ge (RMSE (map (\<lambda>e. PyFloat (Num e)) es) (PyFloat (Num a))) (Num 0))"
proof
  show "result_ge (RMSE (map (\<lambda>e. NpFloat64 (Num e)) es) (PyFloat (Num a))) (Num 0)"
  proof (cases "RMSE (map (\<lambda>e. NpFloat64 (Num e)) es) (PyFloat (Num a))")
    case (Inl e)
    then show ?thesis
      using np_scalars_never_raise [of "PyFloat (Num a)" es] by (simp add: RMSE_raises)
  next
    case (Inr v)
    with RMSE_returns_nonneg [OF _ assms, of NpFloat64 a v] show ?thesis
      by (simp add: result_ge_def)
  qed
  show "RMSE (map (\<lambda>e. PyFloat (Num e)) es) (PyFloat (Num a)) = Inl OverflowError \<or>
        result_ge (RMSE (map (\<lambda>e. PyFloat (Num e)) es) (PyFloat (Num a))) (Num 0)"
  proof (cases "RMSE (map (\<lambda>e. PyFloat (Num e)) es) (PyFloat (Num a))")
    case (Inl e)
    then show ?thesis
      by (simp add: RMSE_raises)
  next
    case (Inr v)
    with RMSE_returns_nonneg [OF _ assms, of PyFloat a v] show ?thesis
      by (simp add: result_ge_def)
  qed
qed

theorem RMSE_nonneg_when_it_returns_witness:
  "[1, 7] \<noteq> ([] :: real list) \<and>
   result_ge (RMSE [NpFloat64 (Num 1), NpFloat64 (Num 7)] (PyFloat (Num 4))) (Num 0) \<and>
   RMSE [PyFloat (Num 1), PyFloat (Num 7)] (PyFloat (Num 4)) \<noteq> Inl OverflowError \<and>
   result_ge (RMSE [PyFloat (Num 1), PyFloat (Num 7)] (PyFloat (Num 4))) (Num 0)"
proof -
  have "RMSE [PyFloat (Num 1), PyFloat (Num 7)] (PyFloat (Num 4)) \<noteq> Inl OverflowError"
    by (simp add: RMSE_1_7)
  with RMSE_nonneg_when_it_returns [of "[1, 7]" 4] show ?thesis
    by simp
qed

text \<open>
  The claim as written ranges over all sequences. At the empty sequence \<open>RMSE\<close>
  returns NaN, and \<open>NaN >= 0\<close> is false; at the Python float \<open>2\<^sup>5\<^sup>1\<^sup>2\<close> the call raises
  and the test is never made.
\<close>

theorem RMSE_nonneg_counterexample:
  "\<not> result_ge (RMSE [] (PyFloat (Num 0))) (Num 0) \<and>
   \<not> result_ge (RMSE [PyFloat (Num (2 ^ 512))] (PyFloat (Num 0))) (Num 0)"
proof
  show "\<not> result_ge (RMSE [] (PyFloat (Num 0))) (Num 0)"
    by (simp add: RMSE_Nil result_ge_def)
  show "\<not> result_ge (RMSE [PyFloat (Num (2 ^ 512))] (PyFloat (Num 0))) (Num 0)"
    using round64_powers(1,3)
    by (simp add: result_ge_def RMSE_def f64_sub_def overflowed_def overflow_threshold_def)
qed

section \<open>Properties of the experiments\<close>

text \<open>
  C1. In \<open>Estimate1\<close> and in \<open>Estimate3\<close> every iteration draws one sample, and both
  estimators of the experiment are applied to that sample: with \<open>xss\<close> the samples
  drawn, one per iteration, the first estimate set is the first estimator mapped
  over \<open>xss\<close> and the second estimate set is the second estimator mapped over the
  same \<open>xss\<close>. No estimator sees a sample of its own.
\<close>

theorem same_sample_for_every_estimator:
  "Estimate1 lib n iters g =
     (case draw_each (draw_each (random_gauss lib 0 1) (py_range 0 n)) (py_range 0 iters) g of
        (xss, g') \<Rightarrow>
          let means = map (\<lambda>xs. np_mean (map Num xs)) xss;
              medians = map (\<lambda>xs. np_median (map Num xs)) xss
          in (means, medians,
              [RMSE (map NpFloat64 means) (PyFloat (Num 0)),
               RMSE (map NpFloat64 medians) (PyFloat (Num 0))], g'))
   \<and> Estimate3 lib n iters g =
     (case draw_each (np_random_exponential lib (1 / 2) n) (py_range 0 iters) g of
        (xss, g') \<Rightarrow>
          let means = map (\<lambda>xs. np_div (Num 1) (np_mean (map Num xs))) xss;
              medians = map (\<lambda>xs. np_div (Num (ln 2)) (thinkstats2_Median lib xs)) xss
          in (means, medians,
              [RMSE (map NpFloat64 means) (PyFloat (Num 2)),
               RMSE (map NpFloat64 medians) (PyFloat (Num 2)),
               MeanError means (Num 2), MeanError medians (Num 2)], g'))"
  by (simp add: Estimate1_def Estimate3_def Estimate1_loop_eq Estimate3_loop_eq Let_def
      split: prod.splits)

text \<open>
  C4. For a sample size \<open>n \<ge> 2\<close>, \<open>Estimate2\<close> computes two variance estimates from
  each sample \<open>xs\<close> it draws: the sum of squared deviations from the sample mean
  divided by \<open>n\<close>, appended to \<open>estimates1\<close>, and the same sum divided by \<open>n - 1\<close>,
  appended to \<open>estimates2\<close>. Both lists are built from the same samples.
\<close>

theorem Estimate2_both_variances:
  assumes "2 \<le> n"
  shows "Estimate2 lib n iters g =
     (case draw_each (draw_each (random_gauss lib 0 1) (py_range 0 n)) (py_range 0 iters) g of
        (xss, g') \<Rightarrow>
          let estimates1 =
                map (\<lambda>xs. Num ((\<Sum>x\<leftarrow>xs. (x - sum_list xs / real_of_int n) ^ 2) / real_of_int n)) xss;
              estimates2 =
                map (\<lambda>xs. Num ((\<Sum>x\<leftarrow>xs. (x - sum_list xs / real_of_int n) ^ 2) / real_of_int (n - 1))) xss
          in (estimates1, estimates2,
              [MeanError estimates1 (Num 1), MeanError estimates2 (Num 1)], g'))"
proof -
  obtain xss g' where dr:
    "draw_each (draw_each (random_gauss lib 0 1) (py_range 0 n)) (py_range 0 iters) g = (xss, g')"
    by (cases "draw_each (draw_each (random_gauss lib 0 1) (py_range 0 n)) (py_range 0 iters) g")
  have len: "\<forall>xs \<in> set xss. length xs = nat n"
    using gauss_samples_lengths [of lib 0 1 n "py_range 0 iters" g] dr by simp
  have v0: "map (\<lambda>xs. np_var 0 (map Num xs)) xss =
            map (\<lambda>xs. Num ((\<Sum>x\<leftarrow>xs. (x - sum_list xs / real_of_int n) ^ 2) / real_of_int n)) xss"
  proof (rule map_cong [OF refl])
    fix xs assume "xs \<in> set xss"
    with len have l: "length xs = nat n" by simp
    with assms have "0 < length xs" by simp
    from np_var_Num [OF this] l assms
    show "np_var 0 (map Num xs) =
          Num ((\<Sum>x\<leftarrow>xs. (x - sum_list xs / real_of_int n) ^ 2) / real_of_int n)"
      by simp
  qed
  have v1: "map (\<lambda>xs. np_var 1 (map Num xs)) xss =
            map (\<lambda>xs. Num ((\<Sum>x\<leftarrow>xs. (x - sum_list xs / real_of_int n) ^ 2) / real_of_int (n - 1))) xss"
  proof (rule map_cong [OF refl])
    fix xs assume "xs \<in> set xss"
    with len have l: "length xs = nat n" by simp
    with assms have "1 < length xs" by simp
    from np_var_Num [OF this] l assms
    show "np_var 1 (map Num xs) =
          Num ((\<Sum>x\<leftarrow>xs. (x - sum_list xs / real_of_int n) ^ 2) / real_of_int (n - 1))"
      by (simp add: of_nat_diff)
  qed
  have "Estimate2 lib n iters g =
          (map (\<lambda>xs. np_var 0 (map Num xs)) xss, map (\<lambda>xs. np_var 1 (map Num xs)) xss,
           [MeanError (map (\<lambda>xs. np_var 0 (map Num xs)) xss) (Num 1),
            MeanError (map (\<lambda>xs. np_var 1 (map Num xs)) xss) (Num 1)], g')"
    by (simp add: Estimate2_def Let_def Estimate2_loop_eq dr del: One_nat_def)
  then show ?thesis
    unfolding v0 v1 dr by (simp add: Let_def)
qed

theorem Estimate2_both_variances_witness:
  "(2::int) \<le> 2 \<and>
   Estimate2 (clockwork 0) 2 1 0 =
     ([Num (1 / 4)], [Num (1 / 2)],
      [MeanError [Num (1 / 4)] (Num 1), MeanError [Num (1 / 2)] (Num 1)], 2)"
  using Estimate2_both_variances [of 2 "clockwork 0" 1 0]
  by (simp add: py_range_0_2 py_range_0_1 clockwork_def power2_eq_square Let_def numeral_2_eq_2)

text \<open>
  C5. The estimate sets of a run are determined by the samples the generator
  yields: two runs of \<open>Estimate1\<close>, or of \<open>SimulateSample\<close>, with the same parameters
  and from generator states that yield the same samples return identical
  estimate sets, and print identical summaries. Two runs from the same generator
  state are the case \<open>g1 = g2\<close>, \<open>h1 = h2\<close>.
\<close>

theorem runs_agree_when_draws_agree:
  assumes "fst (draw_each (draw_each (random_gauss lib 0 1) (py_range 0 n)) (py_range 0 iters) g1) =
           fst (draw_each (draw_each (random_gauss lib 0 1) (py_range 0 n)) (py_range 0 iters) g2)"
      and "fst (draw_each (np_random_normal lib mu sigma m) (py_range 0 its) h1) =
           fst (draw_each (np_random_normal lib mu sigma m) (py_range 0 its) h2)"
  shows "fst (Estimate1 lib n iters g1) = fst (Estimate1 lib n iters g2) \<and>
         fst (snd (Estimate1 lib n iters g1)) = fst (snd (Estimate1 lib n iters g2)) \<and>
         fst (snd (snd (Estimate1 lib n iters g1))) = fst (snd (snd (Estimate1 lib n iters g2))) \<and>
         fst (SimulateSample lib mu sigma m its h1) = fst (SimulateSample lib mu sigma m its h2)"
  using assms
  by (simp add: Estimate1_def SimulateSample_def Estimate1_loop_eq SimulateSample_loop_eq Let_def
      case_prod_beta)

theorem runs_agree_when_draws_agree_witness:
  "fst (draw_each (draw_each (random_gauss (clockwork 0) 0 1) (py_range 0 2)) (py_range 0 1) 0) =
   fst (draw_each (draw_each (random_gauss (clockwork 0) 0 1) (py_range 0 2)) (py_range 0 1) 4) \<and>
   fst (draw_each (np_random_normal (clockwork 0) 90 (15 / 2) 2) (py_range 0 2) 5) =
   fst (draw_each (np_random_normal (clockwork 0) 90 (15 / 2) 2) (py_range 0 2) 5) \<and>
   fst (Estimate1 (clockwork 0) 2 1 0) = fst (Estimate1 (clockwork 0) 2 1 4) \<and>
   fst (Estimate1 (clockwork 0) 2 1 0) = [Num (1 / 2)] \<and>
   fst (SimulateSample (clockwork 0) 90 (15 / 2) 2 2 5) = [Num (525 / 4), Num (585 / 4)]"
proof -
  have a: "fst (draw_each (draw_each (random_gauss (clockwork 0) 0 1) (py_range 0 2)) (py_range 0 1) 0) =
           fst (draw_each (draw_each (random_gauss (clockwork 0) 0 1) (py_range 0 2)) (py_range 0 1) 4)"
    by (simp add: py_range_0_2 py_range_0_1 clockwork_def)
  have b: "fst (draw_each (np_random_normal (clockwork 0) 90 (15 / 2) 2) (py_range 0 2) 5) =
           fst (draw_each (np_random_normal (clockwork 0) 90 (15 / 2) 2) (py_range 0 2) 5)"
    by simp
  have c: "fst (Estimate1 (clockwork 0) 2 1 0) = [Num (1 / 2)]"
    by (simp add: Estimate1_def py_range_0_2 py_range_0_1 clockwork_def np_mean_def)
  have d: "fst (SimulateSample (clockwork 0) 90 (15 / 2) 2 2 5) = [Num (525 / 4), Num (585 / 4)]"
    by (simp add: SimulateSample_def np_random_normal_def py_range_0_2 clockwork_def np_mean_def)
  from runs_agree_when_draws_agree [OF a b] a c d show ?thesis
    by simp
qed

text \<open>
  C6. For a requested iteration count \<open>iters \<ge> 0\<close> and sample size \<open>n \<ge> 0\<close>: each
  estimate set of \<open>Estimate1\<close>, \<open>Estimate2\<close>, \<open>Estimate3\<close> and \<open>SimulateSample\<close> is an
  estimator mapped over the samples that function draws, one per iteration;
  there are exactly \<open>iters\<close> samples, so every estimate set has exactly \<open>iters\<close>
  entries; and every sample has exactly \<open>n\<close> elements. The list \<open>goals\<close> of
  \<open>ManyGames\<close> has one entry per element of \<open>range(1, 10000)\<close> whenever the function
  returns, and it returns whenever every game ends.
\<close>

theorem estimate_sets_and_trials_have_the_requested_lengths:
  assumes "0 \<le> n" and "0 \<le> iters"
  shows "(fst (Estimate1 lib n iters g) =
            map (\<lambda>xs. np_mean (map Num xs)) (gauss_trials lib 0 1 n iters g) \<and>
          fst (snd (Estimate1 lib n iters g)) =
            map (\<lambda>xs. np_median (map Num xs)) (gauss_trials lib 0 1 n iters g) \<and>
          fst (Estimate2 lib n iters g) =
            map (\<lambda>xs. np_var 0 (map Num xs)) (gauss_trials lib 0 1 n iters g) \<and>
          fst (snd (Estimate2 lib n iters g)) =
            map (\<lambda>xs. np_var 1 (map Num xs)) (gauss_trials lib 0 1 n iters g) \<and>
          fst (Estimate3 lib n iters g) =
            map (\<lambda>xs. np_div (Num 1) (np_mean (map Num xs)))
              (exponential_trials lib (1 / 2) n iters g) \<and>
          fst (snd (Estimate3 lib n iters g)) =
            map (\<lambda>xs. np_div (Num (ln 2)) (thinkstats2_Median lib xs))
              (exponential_trials lib (1 / 2) n iters g) \<and>
          fst (SimulateSample lib mu sigma n iters g) =
            map (\<lambda>xs. np_mean (map Num xs)) (normal_trials lib mu sigma n iters g)) \<and>
         (int (length (gauss_trials lib 0 1 n iters g)) = iters \<and>
          int (length (exponential_trials lib (1 / 2) n iters g)) = iters \<and>
          int (length (normal_trials lib mu sigma n iters g)) = iters) \<and>
         (int (length (fst (Estimate1 lib n iters g))) = iters \<and>
          int (length (fst (snd (Estimate1 lib n iters g)))) = iters \<and>
          int (length (fst (Estimate2 lib n iters g))) = iters \<and>
          int (length (fst (snd (Estimate2 lib n iters g)))) = iters \<and>
          int (length (fst (Estimate3 lib n iters g))) = iters \<and>
          int (length (fst (snd (Estimate3 lib n iters g)))) = iters \<and>
          int (length (fst (SimulateSample lib mu sigma n iters g))) = iters) \<and>
         ((\<forall>xs \<in> set (gauss_trials lib 0 1 n iters g). int (length xs) = n) \<and>
          (\<forall>xs \<in> set (exponential_trials lib (1 / 2) n iters g). int (length xs) = n) \<and>
          (\<forall>xs \<in> set (normal_trials lib mu sigma n iters g). int (length xs) = n)) \<and>
         ((\<forall>goals printed g'. ManyGames lib lam g = Some (goals, printed, g') \<longrightarrow>
             length goals = length (py_range 1 10000)) \<and>
          ((\<forall>g'. \<exists>k. np_gt (game_clock lib lam g' k) (Num 1)) \<longrightarrow>
             (\<exists>goals printed g'. ManyGames lib lam g = Some (goals, printed, g') \<and>
                length goals = length (py_range 1 10000))))"
proof (intro conjI)
  note sets = estimate_sets_over_trials
  note len = trials_lengths
  show "int (length (gauss_trials lib 0 1 n iters g)) = iters"
    "int (length (exponential_trials lib (1 / 2) n iters g)) = iters"
    "int (length (normal_trials lib mu sigma n iters g)) = iters"
    using assms(2) by (simp_all add: len)
  show "int (length (fst (Estimate1 lib n iters g))) = iters"
    "int (length (fst (snd (Estimate1 lib n iters g)))) = iters"
    "int (length (fst (Estimate2 lib n iters g))) = iters"
    "int (length (fst (snd (Estimate2 lib n iters g)))) = iters"
    "int (length (fst (Estimate3 lib n iters g))) = iters"
    "int (length (fst (snd (Estimate3 lib n iters g)))) = iters"
    "int (length (fst (SimulateSample lib mu sigma n iters g))) = iters"
    unfolding sets using assms(2) by (simp_all add: len)
  show "\<forall>xs \<in> set (gauss_trials lib 0 1 n iters g). int (length xs) = n"
    "\<forall>xs \<in> set (exponential_trials lib (1 / 2) n iters g). int (length xs) = n"
    "\<forall>xs \<in> set (normal_trials lib mu sigma n iters g). int (length xs) = n"
    using assms(1) len(4) [of lib 0 1 n iters g] len(5) [of lib mu sigma n iters g]
      len(6) [of lib "1 / 2" n iters g]
    by simp_all
  have games: "length goals = length (py_range 1 10000)"
    if "ManyGames lib lam g = Some (goals, printed, g')" for goals printed g'
  proof -
    from that obtain gs where "play_each lib lam (py_range 1 10000) g = Some (goals, gs)"
      by (auto simp: ManyGames_def ManyGames_loop_eq split: option.splits)
    from length_play_each [OF this] show ?thesis .
  qed
  then show "\<forall>goals printed g'. ManyGames lib lam g = Some (goals, printed, g') \<longrightarrow>
             length goals = length (py_range 1 10000)"
    by blast
  show "(\<forall>g'. \<exists>k. np_gt (game_clock lib lam g' k) (Num 1)) \<longrightarrow>
          (\<exists>goals printed g'. ManyGames lib lam g = Some (goals, printed, g') \<and>
             length goals = length (py_range 1 10000))"
  proof
    assume "\<forall>g'. \<exists>k. np_gt (game_clock lib lam g' k) (Num 1)"
    then have "\<And>g'. \<exists>r. SimulateGame lib lam g' = Some r"
      by (rule every_game_returns)
    from play_each_returns [OF this, of "py_range 1 10000" g]
    obtain goals g' where "play_each lib lam (py_range 1 10000) g = Some (goals, g')"
      by auto
    then have "\<exists>printed. ManyGames lib lam g = Some (goals, printed, g')"
      by (simp add: ManyGames_def ManyGames_loop_eq)
    with games show "\<exists>goals printed g'. ManyGames lib lam g = Some (goals, printed, g') \<and>
             length goals = length (py_range 1 10000)"
      by blast
  qed
qed (rule estimate_sets_over_trials)+

theorem estimate_sets_and_trials_have_the_requested_lengths_witness:
  "(0::int) \<le> 2 \<and> (0::int) \<le> 1 \<and>
   (\<forall>g'. \<exists>k. np_gt (game_clock (clockwork (3 / 8)) 2 (g'::nat) k) (Num 1)) \<and>
   gauss_trials (clockwork (3 / 8)) 0 1 2 1 0 = [[0, 1]] \<and>
   fst (Estimate1 (clockwork (3 / 8)) 2 1 0) = [Num (1 / 2)] \<and>
   normal_trials (clockwork (3 / 8)) 90 (15 / 2) 2 1 0 = [[90, 195 / 2]] \<and>
   fst (SimulateSample (clockwork (3 / 8)) 90 (15 / 2) 2 1 0) = [Num (375 / 4)] \<and>
   exponential_trials (clockwork (3 / 8)) (1 / 2) 2 1 0 = [[1 / 2, 1]] \<and>
   fst (Estimate3 (clockwork (3 / 8)) 2 1 0) = [Num (4 / 3)] \<and>
   (\<exists>goals printed g'. ManyGames (clockwork (3 / 8)) 2 0 = Some (goals, printed, g') \<and>
      length goals = length (py_range 1 10000))"
proof -
  have h: "\<forall>g'. \<exists>k. np_gt (game_clock (clockwork (3 / 8)) 2 (g'::nat) k) (Num 1)"
  proof
    fix g' :: nat
    have "game_clock (clockwork (3 / 8)) 2 g' 3 = Num (9 / 8)"
      by (simp add: clockwork_clock numeral_3_eq_3 clock_from_Cons clock_from_Nil
          three_eighths_clock)
    then have "np_gt (game_clock (clockwork (3 / 8)) 2 g' 3) (Num 1)"
      by simp
    then show "\<exists>k. np_gt (game_clock (clockwork (3 / 8)) 2 g' k) (Num 1)" ..
  qed
  have t1: "gauss_trials (clockwork (3 / 8)) 0 1 2 1 0 = [[0, 1]]"
    by (simp add: gauss_trials_def clockwork_def py_range_0_1 py_range_0_2)
  have t2: "normal_trials (clockwork (3 / 8)) 90 (15 / 2) 2 1 0 = [[90, 195 / 2]]"
    by (simp add: normal_trials_def np_random_normal_def clockwork_def py_range_0_1 py_range_0_2)
  have t3: "exponential_trials (clockwork (3 / 8)) (1 / 2) 2 1 0 = [[1 / 2, 1]]"
    by (simp add: exponential_trials_def np_random_exponential_def clockwork_def py_range_0_1
        py_range_0_2)
  note t = estimate_sets_and_trials_have_the_requested_lengths
             [of 2 1 "clockwork (3 / 8)" 0 90 "15 / 2" 2]
  from t h have g: "\<exists>goals printed g'. ManyGames (clockwork (3 / 8)) 2 0 = Some (goals, printed, g') \<and>
      length goals = length (py_range 1 10000)"
    by simp
  have e1: "fst (Estimate1 (clockwork (3 / 8)) 2 1 0) = [Num (1 / 2)]"
    using t by (simp add: t1 np_mean_def)
  have e2: "fst (SimulateSample (clockwork (3 / 8)) 90 (15 / 2) 2 1 0) = [Num (375 / 4)]"
    using t by (simp add: t2 np_mean_def)
  have e3: "fst (Estimate3 (clockwork (3 / 8)) 2 1 0) = [Num (4 / 3)]"
    using t by (simp add: t3 np_mean_def)
  from h t1 t2 t3 e1 e2 e3 g show ?thesis
    by simp
qed

section \<open>Properties of the games\<close>

text \<open>
  C8. The clock of a game is the float64 sum of the inter-goal times drawn so
  far. If the clock passes 1 at some draw, \<open>SimulateGame\<close> returns, and it returns
  the number \<open>m\<close> of goals whose reading of the clock is at most 1: it makes \<open>m + 1\<close>
  draws, and of the readings after these draws exactly \<open>m\<close> are at most 1. This
  count is not the inverse-mean estimator of \<open>Estimate3\<close>: on inter-goal times of
  \<open>3/8\<close> each the game returns 2, and one over the mean of the times drawn is
  \<open>8/3\<close>.
\<close>

theorem SimulateGame_counts_goals_in_one_game:
  assumes "\<exists>k. np_gt (game_clock lib lam g k) (Num 1)"
  shows "(\<exists>m. SimulateGame lib lam g = Some (int m, generator_after lib lam g (Suc m)) \<and>
              np_gt (game_clock lib lam g (Suc m)) (Num 1) \<and>
              length (filter (\<lambda>k. np_ge (Num 1) (game_clock lib lam g k)) [1..<Suc (Suc m)]) = m) \<and>
         (SimulateGame (clockwork (3 / 8)) lam (0::nat) = Some (2, 3) \<and>
          np_div (Num 1) (np_mean (map Num (inter_goal_times (clockwork (3 / 8)) lam (0::nat) 3)))
            = Num (8 / 3))"
proof
  from first_passage [OF assms] obtain m
    where m: "np_gt (game_clock lib lam g (Suc m)) (Num 1)"
      "\<forall>j \<le> m. \<not> np_gt (game_clock lib lam g j) (Num 1)"
    by blast
  have "SimulateGame lib lam g = Some (int m, generator_after lib lam g (Suc m))"
    using m by (rule SimulateGame_returns)
  moreover have "length (filter (\<lambda>k. np_ge (Num 1) (game_clock lib lam g k)) [1..<Suc (Suc m)]) = m"
    using m by (rule count_early_goals) (simp add: game_clock_not_NaN)
  ultimately show "\<exists>m. SimulateGame lib lam g = Some (int m, generator_after lib lam g (Suc m)) \<and>
              np_gt (game_clock lib lam g (Suc m)) (Num 1) \<and>
              length (filter (\<lambda>k. np_ge (Num 1) (game_clock lib lam g k)) [1..<Suc (Suc m)]) = m"
    using m(1) by blast
next
  show "SimulateGame (clockwork (3 / 8)) lam (0::nat) = Some (2, 3) \<and>
        np_div (Num 1) (np_mean (map Num (inter_goal_times (clockwork (3 / 8)) lam (0::nat) 3)))
          = Num (8 / 3)"
    by (simp add: clockwork_game clockwork_draws np_mean_def numeral_3_eq_3)
qed

theorem SimulateGame_counts_goals_in_one_game_witness:
  "(\<exists>k. np_gt (game_clock (clockwork double_0_2) 2 (0::nat) k) (Num 1)) \<and>
   game_clock (clockwork double_0_2) 2 (0::nat) 5 = Num 1 \<and>
   SimulateGame (clockwork double_0_2) 2 (0::nat) = Some (5, 6) \<and>
   length (filter (\<lambda>k. np_ge (Num 1) (game_clock (clockwork double_0_2) 2 (0::nat) k)) [1..<7]) = 5"
proof -
  have six: "np_gt (game_clock (clockwork double_0_2) 2 (0::nat) 6) (Num 1)"
    unfolding double_0_2_readings by simp
  then have h: "\<exists>k. np_gt (game_clock (clockwork double_0_2) 2 (0::nat) k) (Num 1)" ..
  from SimulateGame_counts_goals_in_one_game [OF h]
  obtain m where m: "SimulateGame (clockwork double_0_2) 2 (0::nat) =
                       Some (int m, generator_after (clockwork double_0_2) 2 0 (Suc m))"
    and c: "length (filter (\<lambda>k. np_ge (Num 1) (game_clock (clockwork double_0_2) 2 (0::nat) k))
              [1..<Suc (Suc m)]) = m"
    by blast
  from m have m5: "m = 5"
    by (simp add: double_0_2_game)
  have seven: "Suc (Suc 5) = 7"
    by simp
  from c have "length (filter (\<lambda>k. np_ge (Num 1) (game_clock (clockwork double_0_2) 2 (0::nat) k))
                 [1..<7]) = 5"
    unfolding m5 seven .
  with h show ?thesis
    by (simp add: double_0_2_game double_0_2_readings)
qed

text \<open>
  C10. The list \<open>goals\<close> that \<open>ManyGames\<close> hands to \<open>RMSE\<close> and \<open>MeanError\<close> holds the
  results of 9999 calls of \<open>SimulateGame\<close>, not 10000, each game played from the
  generator state the game before it left; \<open>ManyGames\<close> returns whenever every
  game ends, that is, whenever from every generator state the clock passes 1 at
  some draw.
\<close>

theorem ManyGames_aggregates_9999_games:
  "ManyGames lib lam g =
     (case play_each lib lam (py_range 1 10000) g of
        None \<Rightarrow> None
      | Some (goals, g') \<Rightarrow>
          Some (goals,
                until_raise
                  [RMSE (map (\<lambda>L. PyFloat (Num (of_int L))) goals) (PyFloat (Num lam)),
                   MeanError (map (\<lambda>L. Num (of_int L)) goals) (Num lam)],
                g')) \<and>
   (\<forall>goals g'. play_each lib lam (py_range 1 10000) g = Some (goals, g') \<longrightarrow>
      length goals = 9999) \<and>
   ((\<forall>g'. \<exists>k. np_gt (game_clock lib lam g' k) (Num 1)) \<longrightarrow>
      (\<exists>goals g'. play_each lib lam (py_range 1 10000) g = Some (goals, g')))"
proof (intro conjI allI impI)
  show "ManyGames lib lam g =
     (case play_each lib lam (py_range 1 10000) g of
        None \<Rightarrow> None
      | Some (goals, g') \<Rightarrow>
          Some (goals,
                until_raise
                  [RMSE (map (\<lambda>L. PyFloat (Num (of_int L))) goals) (PyFloat (Num lam)),
                   MeanError (map (\<lambda>L. Num (of_int L)) goals) (Num lam)],
                g'))"
    unfolding ManyGames_def ManyGames_loop_eq
    by (simp split: option.splits)
next
  fix goals g'
  assume "play_each lib lam (py_range 1 10000) g = Some (goals, g')"
  from length_play_each [OF this] show "length goals = 9999"
    by (simp add: length_py_range)
next
  assume "\<forall>g'. \<exists>k. np_gt (game_clock lib lam g' k) (Num 1)"
  then have "\<And>g'. \<exists>r. SimulateGame lib lam g' = Some r"
    by (rule every_game_returns)
  from play_each_returns [OF this, of "py_range 1 10000" g]
  show "\<exists>goals g'. play_each lib lam (py_range 1 10000) g = Some (goals, g')"
    by auto
qed

theorem ManyGames_aggregates_9999_games_witness:
  "(\<forall>g'. \<exists>k. np_gt (game_clock (clockwork (3 / 8)) 2 (g'::nat) k) (Num 1)) \<and>
   play_each (clockwork (3 / 8)) 2 (py_range 1 10000) (0::nat) = Some (replicate 9999 2, 29997) \<and>
   length (replicate 9999 (2::int)) = 9999 \<and>
   ManyGames (clockwork (3 / 8)) 2 (0::nat) =
     Some (replicate 9999 2,
           until_raise
             [RMSE (map (\<lambda>L. PyFloat (Num (of_int L))) (replicate 9999 2)) (PyFloat (Num 2)),
              MeanError (map (\<lambda>L. Num (of_int L)) (replicate 9999 2)) (Num 2)],
           29997)"
proof -
  have h: "\<forall>g'. \<exists>k. np_gt (game_clock (clockwork (3 / 8)) 2 (g'::nat) k) (Num 1)"
  proof
    fix g' :: nat
    have "game_clock (clockwork (3 / 8)) 2 g' 3 = Num (9 / 8)"
      by (simp add: clockwork_clock numeral_3_eq_3 clock_from_Cons clock_from_Nil
          three_eighths_clock)
    then have "np_gt (game_clock (clockwork (3 / 8)) 2 g' 3) (Num 1)"
      by simp
    then show "\<exists>k. np_gt (game_clock (clockwork (3 / 8)) 2 g' k) (Num 1)" ..
  qed
  have p: "play_each (clockwork (3 / 8)) 2 (py_range 1 10000) (0::nat) =
           Some (replicate 9999 2, 29997)"
    by (simp add: clockwork_play_each length_py_range)
  from ManyGames_aggregates_9999_games [of "clockwork (3 / 8)" 2 0] h p show ?thesis
    by simp
qed

end
